theory Spec2Isabelle
  imports Main "HOL-Library.AList" "HOL-Library.Char_ord" "HOL-Library.List_Lexorder"
    "HOL-Library.Multiset"
begin

section \<open>Python strings\<close>

text \<open>
  A Python \<open>str\<close> is a \<open>string\<close> (a list of characters, one \<open>char\<close> per code point,
  so the model covers the code points below 256). \<open>sep.join(xs)\<close> and
  \<open>s.split(c)\<close> for a one-character separator are written out as Python defines them:
  \<open>split\<close> cuts at every occurrence and always returns at least one piece.
\<close>

fun py_join :: "string \<Rightarrow> string list \<Rightarrow> string" where
  "py_join sep [] = []"
| "py_join sep [x] = x"
| "py_join sep (x # y # ys) = x @ sep @ py_join sep (y # ys)"

fun py_split :: "char \<Rightarrow> string \<Rightarrow> string list" where
  "py_split c [] = [[]]"
| "py_split c (x # xs) =
     (if x = c then [] # py_split c xs
      else (x # hd (py_split c xs)) # tl (py_split c xs))"

section \<open>Python values\<close>

text \<open>
  The values the store handles are JSON-like trees. Python's \<open>None\<close> is \<open>JNull\<close>.
  A \<open>float\<close> is carried as the text Python prints for it (its \<open>repr\<close>): the
  program never computes with floats, it only prints them and passes them on. A \<open>dict\<close>
  is an association list in insertion order, looked up with \<open>map_of\<close>; its keys are
  distinct in Python.
\<close>

datatype json =
    JNull
  | JBool bool
  | JInt int
  | JFloat string
  | JStr string
  | JList "json list"
  | JDict "(string \<times> json) list"

text \<open>The exceptions the modelled code raises or catches, each with its message.\<close>

datatype py_error = ValueError string | IndexError string | TypeError string

text \<open>
  \<open>str.isspace\<close> on the code points below 256 and \<open>str.strip()\<close>. \<open>int(s)\<close>
  drops surrounding whitespace (its own set: the separators \<open>0x1C\<close> to \<open>0x1F\<close>
  are not in it), allows one sign, and takes digits that may be separated by single
  underscores; anything else is a \<open>ValueError\<close>.
\<close>

definition py_isspace :: "char \<Rightarrow> bool" where
  "py_isspace c =
     (let n = (of_char c :: nat)
      in (9 \<le> n \<and> n \<le> 13) \<or> (28 \<le> n \<and> n \<le> 32) \<or> n = 133 \<or> n = 160)"

definition py_strip :: "string \<Rightarrow> string" where
  "py_strip s = rev (dropWhile py_isspace (rev (dropWhile py_isspace s)))"

definition is_digit :: "char \<Rightarrow> bool" where
  "is_digit c = (let n = (of_char c :: nat) in 48 \<le> n \<and> n \<le> 57)"

definition digit_val :: "char \<Rightarrow> nat" where
  "digit_val c = of_char c - 48"

fun parse_digits :: "nat \<Rightarrow> string \<Rightarrow> nat option" where
  "parse_digits acc [] = Some acc"
| "parse_digits acc [c] = (if is_digit c then Some (acc * 10 + digit_val c) else None)"
| "parse_digits acc (c # d # cs) =
     (if is_digit c then parse_digits (acc * 10 + digit_val c) (d # cs)
      else if c = CHR ''_'' \<and> is_digit d then parse_digits acc (d # cs)
      else None)"

definition parse_nat :: "string \<Rightarrow> nat option" where
  "parse_nat s =
     (case s of [] \<Rightarrow> None | c # cs \<Rightarrow> if is_digit c then parse_digits 0 s else None)"

definition int_space :: "char \<Rightarrow> bool" where
  "int_space c =
     (let n = (of_char c :: nat)
      in (9 \<le> n \<and> n \<le> 13) \<or> n = 32 \<or> n = 133 \<or> n = 160)"

definition py_int :: "string \<Rightarrow> py_error + int" where
  "py_int s =
     (let t = rev (dropWhile int_space (rev (dropWhile int_space s)));
          r = (case t of
                 [] \<Rightarrow> None
               | c # cs \<Rightarrow>
                   if c = CHR ''-'' then map_option (\<lambda>n. - int n) (parse_nat cs)
                   else if c = CHR ''+'' then map_option int (parse_nat cs)
                   else map_option int (parse_nat t))
      in case r of
           None \<Rightarrow> Inl (ValueError ''invalid literal for int() with base 10'')
         | Some i \<Rightarrow> Inr i)"

text \<open>\<open>str(i)\<close> for an integer: its decimal digits, with a minus sign when negative.\<close>

function digits_of :: "nat \<Rightarrow> string" where
  "digits_of n =
     (if n < 10 then [''0123456789'' ! n]
      else digits_of (n div 10) @ [''0123456789'' ! (n mod 10)])"
  by pat_completeness auto
termination
  by (relation "measure id") auto

declare digits_of.simps [simp del]

definition str_int :: "int \<Rightarrow> string" where
  "str_int i = (if i < 0 then CHR ''-'' # digits_of (nat (- i)) else digits_of (nat i))"

text \<open>
  \<open>json.dumps(v)\<close> and \<open>json.dumps(v, sort_keys=True)\<close> with the default
  separators and \<open>ensure_ascii\<close>: every character outside the printable ASCII range,
  the quote and the backslash are escaped.
\<close>

definition hex_digit :: "nat \<Rightarrow> char" where
  "hex_digit n = ''0123456789abcdef'' ! n"

definition json_escape_char :: "char \<Rightarrow> string" where
  "json_escape_char c =
     (let n = (of_char c :: nat) in
      if c = CHR 0x22 then [CHR 0x5C, CHR 0x22]
      else if c = CHR 0x5C then [CHR 0x5C, CHR 0x5C]
      else if c = CHR 0x0A then [CHR 0x5C, CHR ''n'']
      else if c = CHR 0x0D then [CHR 0x5C, CHR ''r'']
      else if c = CHR 0x09 then [CHR 0x5C, CHR ''t'']
      else if c = CHR 0x08 then [CHR 0x5C, CHR ''b'']
      else if c = CHR 0x0C then [CHR 0x5C, CHR ''f'']
      else if n < 32 \<or> 126 < n
        then [CHR 0x5C, CHR ''u'', CHR ''0'', CHR ''0'', hex_digit (n div 16), hex_digit (n mod 16)]
      else [c])"

definition json_quote :: "string \<Rightarrow> string" where
  "json_quote s = [CHR 0x22] @ concat (map json_escape_char s) @ [CHR 0x22]"

definition json_float :: "string \<Rightarrow> string" where
  "json_float r =
     (if r = ''nan'' then ''NaN''
      else if r = ''inf'' then ''Infinity''
      else if r = ''-inf'' then ''-Infinity''
      else r)"

fun json_dumps :: "bool \<Rightarrow> json \<Rightarrow> string" where
  "json_dumps sort_keys JNull = ''null''"
| "json_dumps sort_keys (JBool b) = (if b then ''true'' else ''false'')"
| "json_dumps sort_keys (JInt i) = str_int i"
| "json_dumps sort_keys (JFloat r) = json_float r"
| "json_dumps sort_keys (JStr s) = json_quote s"
| "json_dumps sort_keys (JList xs) =
     ''['' @ py_join '', '' (map (json_dumps sort_keys) xs) @ '']''"
| "json_dumps sort_keys (JDict kvs) =
     (let items = map (\<lambda>(k, v). (k, json_dumps sort_keys v)) kvs;
          items' = (if sort_keys then sort_key fst items else items)
      in ''{'' @ py_join '', '' (map (\<lambda>(k, t). json_quote k @ '': '' @ t) items') @ ''}'')"

text \<open>
  \<open>repr(v)\<close> and \<open>str(v)\<close>: a string is quoted by \<open>repr\<close> (double quotes only
  when it holds a single quote and no double quote) and printed as it is by \<open>str\<close>;
  all other values print the same under both.
\<close>

definition repr_char :: "char \<Rightarrow> char \<Rightarrow> string" where
  "repr_char q c =
     (let n = (of_char c :: nat) in
      if c = q \<or> c = CHR 0x5C then [CHR 0x5C, c]
      else if c = CHR 0x09 then [CHR 0x5C, CHR ''t'']
      else if c = CHR 0x0A then [CHR 0x5C, CHR ''n'']
      else if c = CHR 0x0D then [CHR 0x5C, CHR ''r'']
      else if n < 32 \<or> n = 127 \<or> (128 \<le> n \<and> n \<le> 160) \<or> n = 173
        then [CHR 0x5C, CHR ''x'', hex_digit (n div 16), hex_digit (n mod 16)]
      else [c])"

definition repr_str :: "string \<Rightarrow> string" where
  "repr_str s =
     (let q = (if CHR 0x27 \<in> set s \<and> CHR 0x22 \<notin> set s then CHR 0x22 else CHR 0x27)
      in [q] @ concat (map (repr_char q) s) @ [q])"

fun py_repr :: "json \<Rightarrow> string" where
  "py_repr JNull = ''None''"
| "py_repr (JBool b) = (if b then ''True'' else ''False'')"
| "py_repr (JInt i) = str_int i"
| "py_repr (JFloat r) = r"
| "py_repr (JStr s) = repr_str s"
| "py_repr (JList xs) = ''['' @ py_join '', '' (map py_repr xs) @ '']''"
| "py_repr (JDict kvs) =
     ''{'' @ py_join '', '' (map (\<lambda>(k, v). repr_str k @ '': '' @ py_repr v) kvs) @ ''}''"

definition py_str :: "json \<Rightarrow> string" where
  "py_str v = (case v of JStr s \<Rightarrow> s | _ \<Rightarrow> py_repr v)"

section \<open>Path extractor\<close>

text \<open>
  \<open>_tokenize_path\<close>. The index \<open>i\<close> into \<open>path\<close> is the not yet scanned rest of
  the path. \<open>scan_group\<close> is the inner loop that captures a bracket or brace group
  whole, counting nested openers; it returns the captured characters and the rest.
\<close>

fun scan_group :: "char \<Rightarrow> char \<Rightarrow> nat \<Rightarrow> string \<Rightarrow> string \<Rightarrow> string \<times> string" where
  "scan_group opn cls open_count chars [] = (chars, [])"
| "scan_group opn cls open_count chars (c # cs) =
     (if open_count > 0 then
        scan_group opn cls
          (if c = opn then open_count + 1 else if c = cls then open_count - 1 else open_count)
          (chars @ [c]) cs
      else (chars, c # cs))"

lemma scan_group_length:
  "length (snd (scan_group opn cls open_count chars rest)) \<le> length rest"
  by (induction opn cls open_count chars rest rule: scan_group.induct) auto

definition flush :: "string list \<Rightarrow> string \<Rightarrow> string list" where
  "flush tokens current = (if current \<noteq> [] then tokens @ [current] else tokens)"

function tokenize_loop :: "string list \<Rightarrow> string \<Rightarrow> string \<Rightarrow> string list" where
  "tokenize_loop tokens current [] = flush tokens current"
| "tokenize_loop tokens current (c # cs) =
     (if c = CHR ''['' then
        (let g = scan_group (CHR ''['') (CHR '']'') 1 ''['' cs
         in tokenize_loop (flush tokens current @ [fst g]) [] (snd g))
      else if c = CHR ''{'' then
        (let g = scan_group (CHR ''{'') (CHR ''}'') 1 ''{'' cs
         in tokenize_loop (flush tokens current @ [fst g]) [] (snd g))
      else if c = CHR ''.'' then tokenize_loop (flush tokens current) [] cs
      else tokenize_loop tokens (current @ [c]) cs)"
  by pat_completeness auto
termination
  by (relation "measure (\<lambda>(tokens, current, rest). length rest)")
     (auto simp: scan_group_length le_imp_less_Suc)

definition tokenize_path :: "string \<Rightarrow> string list" where
  "tokenize_path path = (if path = [] then [] else tokenize_loop [] [] path)"


text \<open>
  \<open>_extract_text_by_path\<close> and its inner \<open>_extract_from_obj\<close>. The only operation
  that raises is \<open>int(index)\<close>; the \<open>try\<close> around it, which also encloses the
  recursive call, turns a \<open>ValueError\<close> or an \<open>IndexError\<close> into the empty result.
  \<open>walk\<close> is the loop over the nested tokens of one field of a brace token: it ends
  with \<open>None\<close> as soon as a token is not a key of the current map. \<open>brace_field\<close>
  is the body of the loop over the fields, and \<open>collect\<close> joins the results of the
  recursive calls in order, an exception of one of them ending the whole.
\<close>

definition startswith :: "char \<Rightarrow> string \<Rightarrow> bool" where
  "startswith c t = (t \<noteq> [] \<and> hd t = c)"

definition endswith :: "char \<Rightarrow> string \<Rightarrow> bool" where
  "endswith c t = (t \<noteq> [] \<and> last t = c)"

definition is_index_token :: "string \<Rightarrow> bool" where
  "is_index_token token = (startswith (CHR ''['') token \<and> endswith (CHR '']'') token)"

definition is_brace_token :: "string \<Rightarrow> bool" where
  "is_brace_token token = (startswith (CHR ''{'') token \<and> endswith (CHR ''}'') token)"

text \<open>\<open>token[1:-1]\<close>.\<close>

definition slice_inner :: "string \<Rightarrow> string" where
  "slice_inner t = butlast (tl t)"

definition is_scalar :: "json \<Rightarrow> bool" where
  "is_scalar v = (case v of JStr _ \<Rightarrow> True | JInt _ \<Rightarrow> True | JFloat _ \<Rightarrow> True | JBool _ \<Rightarrow> True | _ \<Rightarrow> False)"

definition is_container :: "json \<Rightarrow> bool" where
  "is_container v = (case v of JList _ \<Rightarrow> True | JDict _ \<Rightarrow> True | _ \<Rightarrow> False)"

fun walk :: "json \<Rightarrow> string list \<Rightarrow> json" where
  "walk current_obj [] = current_obj"
| "walk current_obj (nested_token # rest) =
     (case current_obj of
        JDict m \<Rightarrow> (case map_of m nested_token of Some v \<Rightarrow> walk v rest | None \<Rightarrow> JNull)
      | _ \<Rightarrow> JNull)"

definition brace_field :: "json \<Rightarrow> string \<Rightarrow> string list" where
  "brace_field obj field =
     (let nested_tokens = tokenize_path field in
      if nested_tokens \<noteq> [] then
        (let current_obj = walk obj nested_tokens in
         if current_obj \<noteq> JNull then
           (if is_scalar current_obj then [py_str current_obj]
            else if is_container current_obj then [json_dumps True current_obj]
            else [])
         else [])
      else [])"

text \<open>\<open>fields = [f.strip() for f in token[1:-1].split(",")]\<close>.\<close>

definition brace_fields :: "string \<Rightarrow> string list" where
  "brace_fields token = map py_strip (py_split (CHR '','') (slice_inner token))"

fun collect :: "(py_error + 'a list) list \<Rightarrow> py_error + 'a list" where
  "collect [] = Inr []"
| "collect (r # rs) =
     (case r of
        Inl e \<Rightarrow> Inl e
      | Inr xs \<Rightarrow> (case collect rs of Inl e \<Rightarrow> Inl e | Inr ys \<Rightarrow> Inr (xs @ ys)))"

function extract_from_obj :: "json \<Rightarrow> string list \<Rightarrow> nat \<Rightarrow> py_error + string list" where
  "extract_from_obj obj tokens pos =
     (if pos \<ge> length tokens then
        (if is_scalar obj then Inr [py_str obj]
         else if obj = JNull then Inr []
         else if is_container obj then Inr [json_dumps True obj]
         else Inr [])
      else
        (let token = tokens ! pos in
         if is_index_token token then
           (case obj of
              JList xs \<Rightarrow>
                (let index = slice_inner token in
                 if index = ''*'' then
                   collect (map (\<lambda>item. extract_from_obj item tokens (pos + 1)) xs)
                 else
                   (case (case py_int index of
                            Inl e \<Rightarrow> Inl e
                          | Inr idx0 \<Rightarrow>
                              (let idx = (if idx0 < 0 then int (length xs) + idx0 else idx0) in
                               if 0 \<le> idx \<and> idx < int (length xs)
                               then extract_from_obj (xs ! nat idx) tokens (pos + 1)
                               else Inr [])) of
                      Inl (ValueError _) \<Rightarrow> Inr []
                    | Inl (IndexError _) \<Rightarrow> Inr []
                    | Inl e \<Rightarrow> Inl e
                    | Inr results \<Rightarrow> Inr results))
            | _ \<Rightarrow> Inr [])
         else if is_brace_token token then
           (case obj of
              JDict m \<Rightarrow>
                Inr (concat (map (brace_field obj) (brace_fields token)))
            | _ \<Rightarrow> Inr [])
         else if token = ''*'' then
           (case obj of
              JDict m \<Rightarrow> collect (map (\<lambda>v. extract_from_obj v tokens (pos + 1)) (map snd m))
            | JList xs \<Rightarrow> collect (map (\<lambda>item. extract_from_obj item tokens (pos + 1)) xs)
            | _ \<Rightarrow> Inr [])
         else
           (case obj of
              JDict m \<Rightarrow>
                (case map_of m token of
                   Some v \<Rightarrow> extract_from_obj v tokens (pos + 1)
                 | None \<Rightarrow> Inr [])
            | _ \<Rightarrow> Inr [])))"
  by pat_completeness auto
termination
  by (relation "measure (\<lambda>(obj, tokens, pos). length tokens - pos)") auto

declare extract_from_obj.simps [simp del]

definition extract_text_by_path :: "json \<Rightarrow> string \<Rightarrow> py_error + string list" where
  "extract_text_by_path obj path =
     (if path = [] \<or> path = ''__root__'' then Inr [json_dumps True obj]
      else extract_from_obj obj (tokenize_path path) 0)"

section \<open>Namespace codec\<close>

type_synonym namespace = "string list"

text \<open>\<open>_namespace_to_text(namespace, handle_wildcards=False)\<close>.\<close>

definition namespace_to_text :: "namespace \<Rightarrow> bool \<Rightarrow> string" where
  "namespace_to_text ns handle_wildcards =
     py_join ''.''
       (if handle_wildcards then map (\<lambda>val. if val = ''*'' then ''%'' else val) ns
        else ns)"

text \<open>
  \<open>_decode_ns_bytes\<close> takes a \<open>str\<close>, a \<open>bytes\<close> or a \<open>list\<close>: a list passes
  through, bytes are decoded and lose their first character, and the text is split on
  the separator.
\<close>

datatype ns_repr = NsStr string | NsBytes string | NsList "string list"

fun decode_ns_bytes :: "ns_repr \<Rightarrow> namespace" where
  "decode_ns_bytes (NsList l) = l"
| "decode_ns_bytes (NsBytes b) = py_split (CHR ''.'') (drop 1 b)"
| "decode_ns_bytes (NsStr s) = py_split (CHR ''.'') s"

section \<open>Operations, statements and rows\<close>

text \<open>
  A float is its printed text, a vector a list of floats, a \<open>dict\<close> with string keys an
  association list. A statement is what is handed to \<open>cur.execute\<close>: the query text and
  its parameters. The query texts are the source's literals character by character
  (\<open>CHR 0x0A\<close> is the line break, \<open>CHR 0x27\<close> the single quote).
\<close>

type_synonym pyfloat = string
type_synonym vector = "pyfloat list"
type_synonym pydict = "(string \<times> json) list"
type_synonym datetime = int

datatype param = PNone | PStr string | PInt int | PJsonb pydict | PVector vector

type_synonym statement = "string \<times> param list"

text \<open>
  The four operations, with the field names of the source. The value of a Put is a
  dict, or \<open>None\<close> for a deletion. \<open>type_of\<close> is \<open>type(op)\<close>, the key under which
  \<open>_group_ops\<close> files an operation.
\<close>

datatype match_condition = MatchCondition (match_type: string) (path: namespace)

datatype op =
    GetOp (namespace: namespace) (key: string)
  | PutOp (namespace: namespace) (key: string) (val: "pydict option")
  | SearchOp (namespace_prefix: namespace) (filter_of: "pydict option")
      (limit: int) (offset: int) (query: "string option")
  | ListNamespacesOp (match_conditions: "match_condition list option")
      (max_depth: "int option") (limit: int) (offset: int)

datatype op_type = GetOpT | PutOpT | SearchOpT | ListNamespacesOpT

fun type_of :: "op \<Rightarrow> op_type" where
  "type_of (GetOp _ _) = GetOpT"
| "type_of (PutOp _ _ _) = PutOpT"
| "type_of (SearchOp _ _ _ _ _) = SearchOpT"
| "type_of (ListNamespacesOp _ _ _ _) = ListNamespacesOpT"

text \<open>
  A row of the table \<open>store\<close> as the cursor returns it (\<open>Row\<close>): its value is a dict
  already or still encoded, its prefix is a text, bytes or a list, and the row of a
  vector search also has a score. An \<open>Item\<close> and a \<open>SearchItem\<close> are built from key,
  namespace, value, created_at and updated_at, a \<open>SearchItem\<close> also from the score when
  the row has one. A result is \<open>None\<close>, an item, a list of search items or a list of
  namespaces.
\<close>

datatype row_value = Decoded pydict | Encoded string

datatype row =
  Row (row_key: string) (row_value: row_value) (row_prefix: ns_repr)
    (row_created_at: datetime) (row_updated_at: datetime) (row_score: "pyfloat option")

datatype item_cls = ItemCls | SearchItemCls

datatype item =
    Item string namespace json datetime datetime
  | SearchItem string namespace json datetime datetime "pyfloat option"

datatype result = RNone | RItem item | RItems "item list" | RNamespaces "namespace list"

text \<open>
  The embedding config: \<open>text_fields\<close> may be absent, \<open>None\<close>, one path or a list of
  paths. The store holds the config, which may be \<open>None\<close>, and the optional
  deserializer.
\<close>

datatype text_fields_value = TFAbsent | TFNone | TFStr string | TFList "string list"

record embedding_config =
  dims :: int
  embed :: "string list \<Rightarrow> vector list"
  text_fields :: text_fields_value

record store =
  embedding_config :: "embedding_config option"
  deserializer :: "(string \<Rightarrow> json) option"

text \<open>
  The collaborators: what the backend returns for a statement (the rows of a select on
  \<open>store\<close>, the \<open>truncated_prefix\<close> column of a namespace listing) and
  \<open>orjson.loads\<close>. The reads of a batch all precede its writes, so one function of the
  statement stands for the backend during a batch.
\<close>

record env =
  fetchall :: "statement \<Rightarrow> row list"
  fetch_namespaces :: "statement \<Rightarrow> ns_repr list"
  json_loads :: "string \<Rightarrow> json"

text \<open>
  What a batch does to the outside: the statements handed to \<open>cur.execute\<close>, in
  order, and the arguments of the calls of \<open>embed_documents\<close>, in order.
\<close>

record world =
  executed :: "statement list"
  embed_calls :: "string list list"

text \<open>\<open>cur.execute(query, params)\<close> and a call of \<open>embed_documents\<close>.\<close>

definition execute :: "statement \<Rightarrow> world \<Rightarrow> world" where
  "execute stmt w = w\<lparr>executed := executed w @ [stmt]\<rparr>"

definition call_embed :: "string list \<Rightarrow> world \<Rightarrow> world" where
  "call_embed texts w = w\<lparr>embed_calls := embed_calls w @ [texts]\<rparr>"

text \<open>
  \<open>groups[k].append(v)\<close> on a \<open>defaultdict(list)\<close>: a new key goes to the end, an
  old one keeps its place.
\<close>

definition group_append :: "'k \<Rightarrow> 'v \<Rightarrow> ('k \<times> 'v list) list \<Rightarrow> ('k \<times> 'v list) list" where
  "group_append k v groups =
     AList.update k ((case map_of groups k of None \<Rightarrow> [] | Some vs \<Rightarrow> vs) @ [v]) groups"

text \<open>The results of a loop whose body may raise: the first exception ends the loop.\<close>

fun sequence :: "(py_error + 'a) list \<Rightarrow> py_error + 'a list" where
  "sequence [] = Inr []"
| "sequence (r # rs) =
     (case r of
        Inl e \<Rightarrow> Inl e
      | Inr x \<Rightarrow> (case sequence rs of Inl e \<Rightarrow> Inl e | Inr xs \<Rightarrow> Inr (x # xs)))"

section \<open>Batch query compiler\<close>

text \<open>
  \<open>_get_batch_GET_ops_queries\<close>: one statement per namespace, with the keys of its
  Gets in order; \<open>get_statement\<close> is the statement of one namespace.
\<close>

definition get_statement :: "namespace \<Rightarrow> string list \<Rightarrow> statement" where
  "get_statement ns keys =
     (let keys_to_query = py_join '','' (replicate (length keys) ''%s'');
          query = [CHR 0x0A] @ ''                SELECT key, value, created_at, updated_at''
            @ [CHR 0x0A] @ ''                FROM store'' @ [CHR 0x0A]
            @ ''                WHERE prefix = %s AND key IN ('' @ keys_to_query
            @ '')'' @ [CHR 0x0A] @ ''            '';
          params = PStr (namespace_to_text ns False) # map PStr keys
      in (query, params))"

definition get_batch_GET_ops_queries ::
  "(nat \<times> op) list \<Rightarrow> (string \<times> param list \<times> namespace \<times> (nat \<times> string) list) list" where
  "get_batch_GET_ops_queries get_ops =
     (let namespace_groups =
            foldl (\<lambda>groups (idx, op). group_append (namespace op) (idx, key op) groups) [] get_ops
      in map (\<lambda>(ns, items).
            (case get_statement ns (map snd items) of
               (q, params) \<Rightarrow> (q, params, ns, items)))
          namespace_groups)"

text \<open>
  \<open>_prepare_batch_PUT_queries\<close>. \<open>dedupped_ops\<close>, \<open>inserts\<close> and \<open>deletes\<close> are
  its local variables of these names; \<open>delete_queries\<close> are the deletes grouped by
  namespace, \<open>insert_row\<close> the three parameters of one upsert row, \<open>insert_query\<close>
  the one upsert, \<open>embedding_request_params\<close> the tuples of namespace text, key, field
  and fragment collected when a config is set, and \<open>vector_query\<close> the text of the
  vector upsert for that many tuples. \<open>the (val op)\<close> is applied to the Puts of
  \<open>inserts\<close> only, which carry a value.
\<close>

definition dedupped_ops :: "(nat \<times> op) list \<Rightarrow> ((namespace \<times> string) \<times> op) list" where
  "dedupped_ops put_ops =
     foldl (\<lambda>d (_, op). AList.update (namespace op, key op) op d) [] put_ops"

definition inserts :: "(nat \<times> op) list \<Rightarrow> op list" where
  "inserts put_ops = filter (\<lambda>op. val op \<noteq> None) (map snd (dedupped_ops put_ops))"

definition deletes :: "(nat \<times> op) list \<Rightarrow> op list" where
  "deletes put_ops = filter (\<lambda>op. val op = None) (map snd (dedupped_ops put_ops))"

definition delete_statement :: "namespace \<Rightarrow> string list \<Rightarrow> statement" where
  "delete_statement ns keys =
     (let placeholders = py_join '','' (replicate (length keys) ''%s'');
          query = ''DELETE FROM store WHERE prefix = %s AND key IN (''
            @ placeholders @ '')'';
          params = PStr (namespace_to_text ns False) # map PStr keys
      in (query, params))"

definition delete_queries :: "op list \<Rightarrow> statement list" where
  "delete_queries dels =
     (if dels \<noteq> [] then
        (let namespace_groups =
               foldl (\<lambda>groups op. group_append (namespace op) (key op) groups) [] dels
         in map (\<lambda>(ns, keys). delete_statement ns keys) namespace_groups)
      else [])"

definition text_fields_of :: "embedding_config \<Rightarrow> string list" where
  "text_fields_of cfg =
     (case text_fields cfg of
        TFAbsent \<Rightarrow> [''__root__'']
      | TFStr s \<Rightarrow> [s]
      | TFNone \<Rightarrow> [''__root__'']
      | TFList fs \<Rightarrow> fs)"

definition embedding_request_params ::
  "embedding_config option \<Rightarrow> op list \<Rightarrow> py_error + (string \<times> string \<times> string \<times> string) list" where
  "embedding_request_params cfg ins =
     (case cfg of
        None \<Rightarrow> Inr []
      | Some c \<Rightarrow>
          collect (map (\<lambda>op.
            (let v = JDict (the (val op));
                 ns = namespace_to_text (namespace op) False;
                 k = key op
             in collect (map (\<lambda>field.
                  (case extract_text_by_path v field of
                     Inl e \<Rightarrow> Inl e
                   | Inr texts \<Rightarrow> Inr (map (\<lambda>text. (ns, k, field, text)) texts)))
                  (text_fields_of c))))
            ins))"

definition insert_row :: "op \<Rightarrow> param list" where
  "insert_row op =
     [PStr (namespace_to_text (namespace op) False), PStr (key op), PJsonb (the (val op))]"

definition insert_query :: "op list \<Rightarrow> statement" where
  "insert_query ins =
     (let vals = map (\<lambda>op. ''(%s, %s, %s, CURRENT_TIMESTAMP, CURRENT_TIMESTAMP)'') ins;
          insertion_params = concat (map insert_row ins);
          values_str = py_join '','' vals;
          query = [CHR 0x0A]
            @ ''                INSERT INTO store (prefix, key, value, created_at, ''
            @ ''updated_at)'' @ [CHR 0x0A] @ ''                VALUES '' @ values_str
            @ [CHR 0x0A] @ ''                ON CONFLICT (prefix, key) DO UPDATE''
            @ [CHR 0x0A] @ ''                SET value = EXCLUDED.value,'' @ [CHR 0x0A]
            @ ''                    updated_at = CURRENT_TIMESTAMP'' @ [CHR 0x0A]
            @ ''            ''
      in (query, insertion_params))"

definition vector_query :: "nat \<Rightarrow> string" where
  "vector_query n =
     (let vector_values =
            replicate n ''(%s, %s, %s, %s, CURRENT_TIMESTAMP, CURRENT_TIMESTAMP)'';
          values_str = py_join '','' vector_values
      in [CHR 0x0A] @ ''                    INSERT INTO store_vectors (prefix, key, ''
          @ ''field_name, embedding, created_at, updated_at)'' @ [CHR 0x0A]
          @ ''                    VALUES '' @ values_str
          @ [CHR 0x0A] @ ''                    ON CONFLICT (prefix, key, field_name) DO ''
          @ ''UPDATE'' @ [CHR 0x0A]
          @ ''                    SET embedding = EXCLUDED.embedding,'' @ [CHR 0x0A]
          @ ''                        updated_at = CURRENT_TIMESTAMP'' @ [CHR 0x0A]
          @ ''                '')"

definition prepare_batch_PUT_queries ::
  "embedding_config option \<Rightarrow> (nat \<times> op) list \<Rightarrow>
   py_error + (statement list \<times> (string \<times> (string \<times> string \<times> string \<times> string) list) option)" where
  "prepare_batch_PUT_queries cfg put_ops =
     (let ins = inserts put_ops;
          dels = deletes put_ops;
          queries = delete_queries dels
      in if ins \<noteq> [] then
           (case embedding_request_params cfg ins of
              Inl e \<Rightarrow> Inl e
            | Inr request_params \<Rightarrow>
                Inr (queries @ [insert_query ins],
                     if request_params \<noteq> []
                     then Some (vector_query (length request_params), request_params)
                     else None))
         else Inr (queries, None))"

text \<open>
  \<open>_get_filter_condition\<close>, with the \<open>ValueError\<close> it raises for an operator
  it has no branch for.
\<close>

definition UnsupportedOperator :: "string \<Rightarrow> py_error" where
  "UnsupportedOperator op_name = ValueError (''Unsupported operator: '' @ op_name)"

definition get_filter_condition :: "string \<Rightarrow> string \<Rightarrow> json \<Rightarrow> py_error + (string \<times> param list)" where
  "get_filter_condition k op_name v =
     (if op_name = ''$eq'' then Inr (''value->%s = %s::jsonb'', [PStr k, PStr (json_dumps False v)])
      else if op_name = ''$gt'' then Inr (''value->>%s > %s'', [PStr k, PStr (py_str v)])
      else if op_name = ''$gte'' then Inr (''value->>%s >= %s'', [PStr k, PStr (py_str v)])
      else if op_name = ''$lt'' then Inr (''value->>%s < %s'', [PStr k, PStr (py_str v)])
      else if op_name = ''$lte'' then Inr (''value->>%s <= %s'', [PStr k, PStr (py_str v)])
      else if op_name = ''$ne'' then Inr (''value->%s != %s::jsonb'', [PStr k, PStr (json_dumps False v)])
      else Inl (UnsupportedOperator op_name))"

text \<open>
  \<open>_prepare_batch_search_queries\<close>: \<open>filter_entry\<close> is the body of the loop over the
  items of the filter, \<open>filter_conditions\<close> the loop (skipped for an absent or empty
  filter), \<open>needs_vector_search\<close> the test \<open>op.query and self.embedding_config\<close>,
  and \<open>search_query\<close> the statement of one Search. An embedding request pairs the
  position of a Search among the Searches with its query text.
\<close>

definition filter_entry :: "string \<times> json \<Rightarrow> py_error + (string \<times> param list) list" where
  "filter_entry kv =
     (case kv of (k, v) \<Rightarrow>
        (case v of
           JDict d \<Rightarrow> sequence (map (\<lambda>(op_name, x). get_filter_condition k op_name x) d)
         | _ \<Rightarrow> Inr [(''value->%s = %s::jsonb'', [PStr k, PStr (json_dumps False v)])]))"

definition filter_conditions :: "pydict option \<Rightarrow> py_error + (string \<times> param list) list" where
  "filter_conditions f =
     (case f of
        None \<Rightarrow> Inr []
      | Some d \<Rightarrow>
          if d \<noteq> [] then
            (case sequence (map filter_entry d) of
               Inl e \<Rightarrow> Inl e
             | Inr conds \<Rightarrow> Inr (concat conds))
          else Inr [])"

definition needs_vector_search :: "embedding_config option \<Rightarrow> op \<Rightarrow> bool" where
  "needs_vector_search cfg op =
     ((case query op of None \<Rightarrow> False | Some q \<Rightarrow> q \<noteq> []) \<and> cfg \<noteq> None)"

definition search_query :: "embedding_config option \<Rightarrow> op \<Rightarrow> py_error + statement" where
  "search_query cfg op =
     (let like = namespace_to_text (namespace_prefix op) False @ ''%'';
          base_query =
            (if needs_vector_search cfg op then
               [CHR 0x0A]
               @ ''                    SELECT s.prefix, s.key, s.value, s.created_at, ''
               @ ''s.updated_at,'' @ [CHR 0x0A]
               @ ''                           1 - (sv.embedding <=> %s::vector) ''
               @ ''as score'' @ [CHR 0x0A] @ ''                    FROM store s''
               @ [CHR 0x0A]
               @ ''                    JOIN store_vectors sv ON s.prefix = sv.prefix ''
               @ ''AND s.key = sv.key'' @ [CHR 0x0A]
               @ ''                    WHERE s.prefix LIKE %s'' @ [CHR 0x0A]
               @ ''                ''
             else
               [CHR 0x0A]
               @ ''                SELECT prefix, key, value, created_at, updated_at''
               @ [CHR 0x0A] @ ''                FROM store'' @ [CHR 0x0A]
               @ ''                WHERE prefix LIKE %s'' @ [CHR 0x0A] @ ''            '');
          params = (if needs_vector_search cfg op then [PNone, PStr like] else [PStr like])
      in case filter_conditions (filter_of op) of
           Inl e \<Rightarrow> Inl e
         | Inr conds \<Rightarrow>
             (let base_query' =
                    (if conds \<noteq> []
                     then base_query @ '' AND '' @ py_join '' AND '' (map fst conds)
                     else base_query);
                  order_by =
                    (if needs_vector_search cfg op then ''ORDER BY score DESC''
                     else ''ORDER BY updated_at DESC'')
              in Inr (base_query' @ '' '' @ order_by @ '' LIMIT %s OFFSET %s'',
                      params @ concat (map snd conds) @ [PInt (limit op), PInt (offset op)])))"

definition prepare_batch_search_queries ::
  "embedding_config option \<Rightarrow> (nat \<times> op) list \<Rightarrow>
   py_error + (statement list \<times> (nat \<times> string) list)" where
  "prepare_batch_search_queries cfg search_ops =
     (case sequence (map (\<lambda>(_, op). search_query cfg op) search_ops) of
        Inl e \<Rightarrow> Inl e
      | Inr queries \<Rightarrow>
          Inr (queries,
               map (\<lambda>(idx, _, op). (idx, the (query op)))
                 (filter (\<lambda>(idx, _, op). needs_vector_search cfg op)
                    (enumerate 0 search_ops))))"

text \<open>
  \<open>_get_batch_list_namespaces_queries\<close>; an unknown match type is logged and adds no
  condition.
\<close>

definition match_condition_query :: "match_condition \<Rightarrow> (string \<times> param) list" where
  "match_condition_query condition =
     (if match_type condition = ''prefix'' then
        [(''prefix LIKE %s'', PStr (namespace_to_text (path condition) True @ ''%''))]
      else if match_type condition = ''suffix'' then
        [(''prefix LIKE %s'', PStr (''%'' @ namespace_to_text (path condition) True))]
      else [])"

definition opt_int_param :: "int option \<Rightarrow> param" where
  "opt_int_param x = (case x of None \<Rightarrow> PNone | Some i \<Rightarrow> PInt i)"

definition list_namespaces_query :: "op \<Rightarrow> statement" where
  "list_namespaces_query op =
     (let query = [CHR 0x0A]
            @ ''                SELECT DISTINCT ON (truncated_prefix) truncated_prefix, ''
            @ ''prefix'' @ [CHR 0x0A] @ ''                FROM ('' @ [CHR 0x0A]
            @ ''                    SELECT'' @ [CHR 0x0A]
            @ ''                        prefix,'' @ [CHR 0x0A]
            @ ''                        CASE'' @ [CHR 0x0A]
            @ ''                            WHEN %s::integer IS NOT NULL THEN''
            @ [CHR 0x0A] @ ''                                (SELECT STRING_AGG(part, ''
            @ [CHR 0x27] @ ''.'' @ [CHR 0x27] @ '' ORDER BY idx)'' @ [CHR 0x0A]
            @ ''                                 FROM ('' @ [CHR 0x0A]
            @ ''                                     SELECT part, ROW_NUMBER() ''
            @ ''OVER () AS idx'' @ [CHR 0x0A]
            @ ''                                     FROM UNNEST(REGEXP_SPLIT_TO_ARRAY(prefix, ''
            @ [CHR 0x27, CHR 0x5C] @ ''.'' @ [CHR 0x27] @ '')) AS part'' @ [CHR 0x0A]
            @ ''                                     LIMIT %s::integer'' @ [CHR 0x0A]
            @ ''                                 ) subquery'' @ [CHR 0x0A]
            @ ''                                )'' @ [CHR 0x0A]
            @ ''                            ELSE prefix'' @ [CHR 0x0A]
            @ ''                        END AS truncated_prefix'' @ [CHR 0x0A]
            @ ''                    FROM store'' @ [CHR 0x0A] @ ''            '';
          conditions =
            (case match_conditions op of
               None \<Rightarrow> []
             | Some cs \<Rightarrow> concat (map match_condition_query cs));
          query' =
            (if conditions \<noteq> []
             then query @ '' WHERE '' @ py_join '' AND '' (map fst conditions)
             else query)
      in (query' @ '') AS subquery '' @ '' ORDER BY truncated_prefix LIMIT %s OFFSET %s'',
          [opt_int_param (max_depth op), opt_int_param (max_depth op)]
            @ map snd conditions @ [PInt (limit op), PInt (offset op)]))"

definition get_batch_list_namespaces_queries :: "(nat \<times> op) list \<Rightarrow> statement list" where
  "get_batch_list_namespaces_queries list_ops = map (\<lambda>(_, op). list_namespaces_query op) list_ops"

section \<open>Execution and result assembly\<close>

text \<open>
  \<open>_row_to_item\<close>: unless the value is a dict already, it is decoded with the store's
  deserializer, or with \<open>orjson.loads\<close> when the store has none.
\<close>

definition json_loads_default :: "store \<Rightarrow> env \<Rightarrow> string \<Rightarrow> json" where
  "json_loads_default st ev = (case deserializer st of Some loader \<Rightarrow> loader | None \<Rightarrow> json_loads ev)"

definition row_to_item :: "namespace \<Rightarrow> row \<Rightarrow> (string \<Rightarrow> json) \<Rightarrow> item_cls \<Rightarrow> item" where
  "row_to_item ns r loader cls =
     (let v = (case row_value r of Decoded d \<Rightarrow> JDict d | Encoded b \<Rightarrow> loader b)
      in case cls of
           ItemCls \<Rightarrow> Item (row_key r) ns v (row_created_at r) (row_updated_at r)
         | SearchItemCls \<Rightarrow>
             SearchItem (row_key r) ns v (row_created_at r) (row_updated_at r) (row_score r))"

text \<open>\<open>results[idx] = r\<close>, which raises for an index out of range.\<close>

definition set_result :: "result list \<Rightarrow> nat \<Rightarrow> result \<Rightarrow> py_error + result list" where
  "set_result results idx r =
     (if idx < length results then Inr (results[idx := r])
      else Inl (IndexError ''list assignment index out of range''))"

text \<open>
  \<open>_batch_get_ops\<close>: \<open>key_to_row\<close> is the dict comprehension over the rows,
  \<open>get_value\<close> the result for one key, \<open>assign_gets\<close> the loop over the items of one
  group and \<open>get_loop\<close> the loop over the groups.
\<close>

definition key_to_row :: "row list \<Rightarrow> (string \<times> row) list" where
  "key_to_row rows = foldl (\<lambda>d r. AList.update (row_key r) r d) [] rows"

definition get_value :: "store \<Rightarrow> env \<Rightarrow> namespace \<Rightarrow> (string \<times> row) list \<Rightarrow> string \<Rightarrow> result" where
  "get_value st ev ns k2r k =
     (case map_of k2r k of
        Some r \<Rightarrow> RItem (row_to_item ns r (json_loads_default st ev) ItemCls)
      | None \<Rightarrow> RNone)"

fun assign_gets ::
  "store \<Rightarrow> env \<Rightarrow> namespace \<Rightarrow> (string \<times> row) list \<Rightarrow> (nat \<times> string) list \<Rightarrow> result list \<Rightarrow>
   py_error + result list" where
  "assign_gets st ev ns k2r [] results = Inr results"
| "assign_gets st ev ns k2r ((idx, k) # items) results =
     (case set_result results idx (get_value st ev ns k2r k) of
        Inl e \<Rightarrow> Inl e
      | Inr results' \<Rightarrow> assign_gets st ev ns k2r items results')"

fun get_loop ::
  "store \<Rightarrow> env \<Rightarrow> (string \<times> param list \<times> namespace \<times> (nat \<times> string) list) list \<Rightarrow>
   result list \<Rightarrow> world \<Rightarrow> world \<times> (py_error + result list)" where
  "get_loop st ev [] results w = (w, Inr results)"
| "get_loop st ev ((q, params, ns, items) # rest) results w =
     (let w' = execute (q, params) w;
          rows = fetchall ev (q, params)
      in case assign_gets st ev ns (key_to_row rows) items results of
           Inl e \<Rightarrow> (w', Inl e)
         | Inr results' \<Rightarrow> get_loop st ev rest results' w')"

definition batch_get_ops ::
  "store \<Rightarrow> env \<Rightarrow> (nat \<times> op) list \<Rightarrow> result list \<Rightarrow> world \<Rightarrow> world \<times> (py_error + result list)" where
  "batch_get_ops st ev get_ops results w =
     get_loop st ev (get_batch_GET_ops_queries get_ops) results w"

text \<open>
  \<open>_batch_search_ops\<close>: \<open>fill_embeddings\<close> is the loop that writes each vector into
  the first parameter of its query (the positions come from the compilation just
  before, so they are in range), \<open>search_loop\<close> the loop that executes the queries.
\<close>

definition fill_embeddings ::
  "statement list \<Rightarrow> ((nat \<times> string) \<times> vector) list \<Rightarrow> statement list" where
  "fill_embeddings queries filled =
     foldl (\<lambda>qs ((idx, _), embedding).
              qs[idx := (fst (qs ! idx), (snd (qs ! idx))[0 := PVector embedding])])
       queries filled"

definition search_items :: "store \<Rightarrow> env \<Rightarrow> row list \<Rightarrow> item list" where
  "search_items st ev rows =
     map (\<lambda>r. row_to_item (decode_ns_bytes (row_prefix r)) r
                 (json_loads_default st ev) SearchItemCls) rows"

fun search_loop ::
  "store \<Rightarrow> env \<Rightarrow> ((nat \<times> op) \<times> statement) list \<Rightarrow> result list \<Rightarrow> world \<Rightarrow>
   world \<times> (py_error + result list)" where
  "search_loop st ev [] results w = (w, Inr results)"
| "search_loop st ev (((idx, _), stmt) # rest) results w =
     (let w' = execute stmt w;
          rows = fetchall ev stmt;
          items = search_items st ev rows
      in case set_result results idx (RItems items) of
           Inl e \<Rightarrow> (w', Inl e)
         | Inr results' \<Rightarrow> search_loop st ev rest results' w')"

definition batch_search_ops ::
  "store \<Rightarrow> env \<Rightarrow> (nat \<times> op) list \<Rightarrow> result list \<Rightarrow> world \<Rightarrow> world \<times> (py_error + result list)" where
  "batch_search_ops st ev search_ops results w =
     (case prepare_batch_search_queries (embedding_config st) search_ops of
        Inl e \<Rightarrow> (w, Inl e)
      | Inr (queries, embedding_requests) \<Rightarrow>
          (case embedding_config st of
             Some cfg \<Rightarrow>
               if embedding_requests \<noteq> [] then
                 (let texts = map snd embedding_requests;
                      embeddings = embed cfg texts
                  in search_loop st ev
                       (zip search_ops (fill_embeddings queries (zip embedding_requests embeddings)))
                       results (call_embed texts w))
               else search_loop st ev (zip search_ops queries) results w
           | None \<Rightarrow> search_loop st ev (zip search_ops queries) results w))"

text \<open>\<open>_batch_list_namespaces_ops\<close>.\<close>

fun list_loop ::
  "env \<Rightarrow> (statement \<times> (nat \<times> op)) list \<Rightarrow> result list \<Rightarrow> world \<Rightarrow>
   world \<times> (py_error + result list)" where
  "list_loop ev [] results w = (w, Inr results)"
| "list_loop ev ((stmt, (idx, _)) # rest) results w =
     (let w' = execute stmt w
      in case set_result results idx
                (RNamespaces (map decode_ns_bytes (fetch_namespaces ev stmt))) of
           Inl e \<Rightarrow> (w', Inl e)
         | Inr results' \<Rightarrow> list_loop ev rest results' w')"

definition batch_list_namespaces_ops ::
  "env \<Rightarrow> (nat \<times> op) list \<Rightarrow> result list \<Rightarrow> world \<Rightarrow> world \<times> (py_error + result list)" where
  "batch_list_namespaces_ops ev list_ops results w =
     list_loop ev (zip (get_batch_list_namespaces_queries list_ops) list_ops) results w"

text \<open>
  \<open>_batch_put_ops\<close>, with the error it raises when an embedding request meets no
  config.
\<close>

definition execute_all :: "statement list \<Rightarrow> world \<Rightarrow> world" where
  "execute_all queries w = foldl (\<lambda>w' stmt. execute stmt w') w queries"

definition EmbeddingConfigRequired :: py_error where
  "EmbeddingConfigRequired =
     ValueError (''Embedding configuration is required for vector operations ''
       @ ''(for semantic search). ''
       @ ''Please provide an EmbeddingConfig when initializing the PostgresStore.'')"

definition batch_put_ops ::
  "store \<Rightarrow> (nat \<times> op) list \<Rightarrow> world \<Rightarrow> world \<times> (py_error + unit)" where
  "batch_put_ops st put_ops w =
     (case prepare_batch_PUT_queries (embedding_config st) put_ops of
        Inl e \<Rightarrow> (w, Inl e)
      | Inr (queries, embedding_request) \<Rightarrow>
          (case embedding_request of
             None \<Rightarrow> (execute_all queries w, Inr ())
           | Some (q, txt_params) \<Rightarrow>
               (case embedding_config st of
                  None \<Rightarrow> (w, Inl EmbeddingConfigRequired)
                | Some cfg \<Rightarrow>
                    (let texts = map (\<lambda>(ns, k, field, text). text) txt_params;
                         vectors = embed cfg texts;
                         queries' = queries @
                           map (\<lambda>((ns, k, field, _), vector).
                                  (q, [PStr ns, PStr k, PStr field, PVector vector]))
                             (zip txt_params vectors)
                     in (execute_all queries' (call_embed texts w), Inr ())))))"

text \<open>
  \<open>_group_ops\<close> and \<open>batch\<close>. A phase runs when the batch has an operation of its
  type, on the results and the world the phases before it left; an exception ends the
  batch. The world the batch starts from is given, so that batches can follow each
  other.
\<close>

definition group_ops :: "op list \<Rightarrow> (op_type \<times> (nat \<times> op) list) list \<times> nat" where
  "group_ops ops =
     foldl (\<lambda>(grouped_ops, tot) (idx, op).
              (group_append (type_of op) (idx, op) grouped_ops, tot + 1))
       ([], 0) (enumerate 0 ops)"

definition run_if_present ::
  "(op_type \<times> (nat \<times> op) list) list \<Rightarrow> op_type \<Rightarrow>
   ((nat \<times> op) list \<Rightarrow> result list \<Rightarrow> world \<Rightarrow> world \<times> (py_error + result list)) \<Rightarrow>
   world \<times> (py_error + result list) \<Rightarrow> world \<times> (py_error + result list)" where
  "run_if_present grouped_ops t phase state =
     (case state of
        (w, Inl e) \<Rightarrow> (w, Inl e)
      | (w, Inr results) \<Rightarrow>
          (case map_of grouped_ops t of
             Some typed_ops \<Rightarrow> phase typed_ops results w
           | None \<Rightarrow> (w, Inr results)))"

definition batch :: "store \<Rightarrow> env \<Rightarrow> op list \<Rightarrow> world \<Rightarrow> world \<times> (py_error + result list)" where
  "batch st ev ops w =
     (case group_ops ops of (grouped_ops, num_ops) \<Rightarrow>
        (let results = replicate num_ops RNone;
             s1 = run_if_present grouped_ops GetOpT (batch_get_ops st ev) (w, Inr results);
             s2 = run_if_present grouped_ops SearchOpT (batch_search_ops st ev) s1;
             s3 = run_if_present grouped_ops ListNamespacesOpT (batch_list_namespaces_ops ev) s2
         in run_if_present grouped_ops PutOpT
              (\<lambda>put_ops results w'.
                 (case batch_put_ops st put_ops w' of
                    (w'', Inl e) \<Rightarrow> (w'', Inl e)
                  | (w'', Inr _) \<Rightarrow> (w'', Inr results)))
              s3))"

section \<open>Migration runner\<close>

text \<open>
  A migration is a text or a \<open>Migration\<close> with an optional condition and optional
  parameters (the \<open>acondition\<close> field is used by the asynchronous store only). A
  condition is \<open>check_vector_available\<close> or another predicate over the store; the
  runner compares conditions with \<open>check_vector_available\<close> by identity. A parameter
  is a callable of the store, which may raise, or a constant.
\<close>

datatype condition = CheckVectorAvailable | OtherCondition "store \<Rightarrow> bool"



















section \<open>Notions used in the statements\<close>

text \<open>
  The specification's notion of a plain map walk, kept apart from \<open>walk\<close> so that
  the two can be compared: \<open>None\<close> when a token is not a key of the current value or
  the current value is not a map, and otherwise the value found, which may be the JSON
  null.
\<close>

fun resolve :: "json \<Rightarrow> string list \<Rightarrow> json option" where
  "resolve v [] = Some v"
| "resolve v (t # ts) =
     (case v of
        JDict m \<Rightarrow> (case map_of m t of Some w \<Rightarrow> resolve w ts | None \<Rightarrow> None)
      | _ \<Rightarrow> None)"


text \<open>
  The operations of one type with their positions in the batch, in submission order:
  what \<open>grouped_ops[T]\<close> holds when the batch has an operation of type \<open>T\<close>.
\<close>

definition typed_ops :: "op_type \<Rightarrow> op list \<Rightarrow> (nat \<times> op) list" where
  "typed_ops t ops = filter (\<lambda>(idx, op). type_of op = t) (enumerate 0 ops)"

text \<open>A phase of the batch applied to the state the previous phase left.\<close>

definition then_phase ::
  "world \<times> (py_error + result list) \<Rightarrow>
   (result list \<Rightarrow> world \<Rightarrow> world \<times> (py_error + result list)) \<Rightarrow>
   world \<times> (py_error + result list)" where
  "then_phase state phase =
     (case state of (w, Inl e) \<Rightarrow> (w, Inl e) | (w, Inr results) \<Rightarrow> phase results w)"

text \<open>
  Assignments \<open>results[idx] = r\<close> carried out in order on a list in which every index
  is in range.
\<close>

definition apply_all :: "(nat \<times> result) list \<Rightarrow> result list \<Rightarrow> result list" where
  "apply_all assignments results = foldl (\<lambda>rs (idx, r). rs[idx := r]) results assignments"


text \<open>
  The assignments and the statements of the three reading phases, as lists: those of
  the groups of Gets, of the Searches paired with their statements, and of the
  ListNamespaces paired with theirs.
\<close>

definition get_assignments ::
  "store \<Rightarrow> env \<Rightarrow> (string \<times> param list \<times> namespace \<times> (nat \<times> string) list) list \<Rightarrow>
   (nat \<times> result) list" where
  "get_assignments st ev groups =
     concat (map (\<lambda>(q, params, ns, items).
                    map (\<lambda>(idx, k).
                           (idx, get_value st ev ns (key_to_row (fetchall ev (q, params))) k))
                      items)
               groups)"

definition get_statements ::
  "(string \<times> param list \<times> namespace \<times> (nat \<times> string) list) list \<Rightarrow> statement list" where
  "get_statements groups = map (\<lambda>(q, params, ns, items). (q, params)) groups"

definition search_assignments ::
  "store \<Rightarrow> env \<Rightarrow> ((nat \<times> op) \<times> statement) list \<Rightarrow> (nat \<times> result) list" where
  "search_assignments st ev zs =
     map (\<lambda>((idx, _), stmt). (idx, RItems (search_items st ev (fetchall ev stmt)))) zs"

definition list_assignments ::
  "env \<Rightarrow> (statement \<times> (nat \<times> op)) list \<Rightarrow> (nat \<times> result) list" where
  "list_assignments ev zs =
     map (\<lambda>(stmt, (idx, _)).
            (idx, RNamespaces (map decode_ns_bytes (fetch_namespaces ev stmt)))) zs"

text \<open>
  The keys of the Gets of one namespace, in submission order: the keys of the one
  statement compiled for that namespace.
\<close>

definition namespace_keys :: "namespace \<Rightarrow> (nat \<times> op) list \<Rightarrow> string list" where
  "namespace_keys ns get_ops = map (\<lambda>x. key (snd x)) (filter (\<lambda>x. namespace (snd x) = ns) get_ops)"

text \<open>
  The statements the Search phase executes: the compiled queries, with the vectors
  written into their first parameter when there are embedding requests and a config.
\<close>

definition filled_queries ::
  "store \<Rightarrow> statement list \<Rightarrow> (nat \<times> string) list \<Rightarrow> statement list" where
  "filled_queries st queries embedding_requests =
     (case embedding_config st of
        Some cfg \<Rightarrow>
          if embedding_requests \<noteq> []
          then fill_embeddings queries
                 (zip embedding_requests (embed cfg (map snd embedding_requests)))
          else queries
      | None \<Rightarrow> queries)"

text \<open>One call of the embedding capability with the given texts, unless there are none.\<close>

definition embed_once :: "string list \<Rightarrow> world \<Rightarrow> world" where
  "embed_once texts w = (if texts \<noteq> [] then call_embed texts w else w)"

text \<open>The texts of the pending embedding work of the Put phase, in order.\<close>

definition put_texts :: "store \<Rightarrow> (nat \<times> op) list \<Rightarrow> string list" where
  "put_texts st put_ops =
     (case embedding_request_params (embedding_config st) (inserts put_ops) of
        Inl e \<Rightarrow> []
      | Inr request_params \<Rightarrow> map (\<lambda>(ns, k, field, text). text) request_params)"

text \<open>The query texts of the Searches that need a vector search, in order.\<close>

definition search_texts :: "store \<Rightarrow> (nat \<times> op) list \<Rightarrow> string list" where
  "search_texts st search_ops =
     map (\<lambda>x. the (query (snd x)))
       (filter (\<lambda>x. needs_vector_search (embedding_config st) (snd x)) search_ops)"

text \<open>
  The assignments of the whole batch, in the order of the phases, and the statements
  of the Get phase.
\<close>

definition batch_assignments ::
  "store \<Rightarrow> env \<Rightarrow> op list \<Rightarrow> statement list \<Rightarrow> (nat \<times> result) list" where
  "batch_assignments st ev ops search_statements =
     get_assignments st ev (get_batch_GET_ops_queries (typed_ops GetOpT ops))
     @ search_assignments st ev (zip (typed_ops SearchOpT ops) search_statements)
     @ list_assignments ev
         (zip (get_batch_list_namespaces_queries (typed_ops ListNamespacesOpT ops))
              (typed_ops ListNamespacesOpT ops))"

definition batch_get_statements :: "op list \<Rightarrow> statement list" where
  "batch_get_statements ops = get_statements (get_batch_GET_ops_queries (typed_ops GetOpT ops))"

text \<open>The operator names \<open>_get_filter_condition\<close> has a branch for.\<close>

definition supported_operators :: "string set" where
  "supported_operators = {''$eq'', ''$gt'', ''$gte'', ''$lt'', ''$lte'', ''$ne''}"

text \<open>
  A Search whose filter has an entry with an operator outside the supported ones:
  the filter is a non-empty map, one of its values is a map, and one of that map's keys
  is not a supported operator.
\<close>

definition has_unsupported_operator :: "op \<Rightarrow> bool" where
  "has_unsupported_operator op =
     (case filter_of op of
        None \<Rightarrow> False
      | Some d \<Rightarrow>
          list_ex (\<lambda>(k, v).
            (case v of
               JDict e \<Rightarrow> list_ex (\<lambda>(op_name, x). op_name \<notin> supported_operators) e
             | _ \<Rightarrow> False)) d)"


section \<open>The backend's ordering conditions\<close>

text \<open>
  Modelled from the spec: how the backend evaluates a compiled ordering condition,
  which is not code of this repository. The spec says that the ordering operators
  compile to text-comparison predicates against the field's scalar textual
  representation, and the compiled text \<open>value->>%s > %s\<close> with a text operand is
  such a predicate. The field's text is given; texts are compared character by
  character by code point, a proper prefix being smaller.
\<close>

definition ordering_condition_holds :: "string \<Rightarrow> string \<times> param list \<Rightarrow> bool" where
  "ordering_condition_holds field_text cond =
     (case cond of
        (c, [PStr k, PStr operand]) \<Rightarrow>
          if c = ''value->>%s > %s'' then operand < field_text
          else if c = ''value->>%s >= %s'' then operand \<le> field_text
          else if c = ''value->>%s < %s'' then field_text < operand
          else if c = ''value->>%s <= %s'' then field_text \<le> operand
          else False
      | _ \<Rightarrow> False)"

section \<open>Example inputs\<close>

text \<open>
  A store without embedding config, a backend holding one item under
  \<open>("users",)\<close> and key \<open>k2\<close>, and a batch that mixes the four kinds of operation.
\<close>

definition example_store :: store where
  "example_store = \<lparr>embedding_config = None, deserializer = None\<rparr>"

definition example_env :: env where
  "example_env =
     \<lparr>fetchall = (\<lambda>stmt.
          if PStr ''k2'' \<in> set (snd stmt) \<or> PStr ''users%'' \<in> set (snd stmt)
          then [Row ''k2'' (Decoded [(''a'', JInt 2)]) (NsStr ''users'') 5 6 None]
          else []),
      fetch_namespaces = (\<lambda>stmt. [NsStr ''users'']),
      json_loads = (\<lambda>s. JNull)\<rparr>"


definition empty_world :: world where
  "empty_world = \<lparr>executed = [], embed_calls = []\<rparr>"

text \<open>
  A store with an embedding config whose capability maps every text to the one-element
  vector of the text of its length.
\<close>

definition example_embed :: "string list \<Rightarrow> vector list" where
  "example_embed texts = map (\<lambda>t. [str_int (int (length t))]) texts"

definition vector_store :: store where
  "vector_store =
     \<lparr>embedding_config = Some \<lparr>dims = 1, embed = example_embed, text_fields = TFAbsent\<rparr>,
      deserializer = None\<rparr>"





section \<open>Properties of the namespace codec\<close>

lemma py_split_not_Nil: "py_split c s \<noteq> []"
  by (cases s) auto

lemma py_split_no_sep: "c \<notin> set s \<Longrightarrow> py_split c s = [s]"
  by (induction s) auto

lemma py_split_append_sep:
  "c \<notin> set s \<Longrightarrow> py_split c (s @ c # t) = s # py_split c t"
  by (induction s) auto

lemma py_split_join:
  assumes "ns \<noteq> []" and "\<forall>s \<in> set ns. c \<notin> set s"
  shows "py_split c (py_join [c] ns) = ns"
  using assms
proof (induction "[c]" ns rule: py_join.induct)
  case 1
  then show ?case by simp
next
  case (2 x)
  then show ?case by (simp add: py_split_no_sep)
next
  case (3 x y ys)
  then show ?case by (simp add: py_split_append_sep)
qed

text \<open>
  C8. For every non-empty sequence of segments none of which contains the separator
  \<open>.\<close>, decoding the encoded namespace text gives the sequence back.
\<close>

theorem namespace_round_trip:
  assumes "ns \<noteq> []" and "\<forall>s \<in> set ns. CHR ''.'' \<notin> set s"
  shows "decode_ns_bytes (NsStr (namespace_to_text ns False)) = ns"
  using py_split_join [OF assms] by (simp add: namespace_to_text_def)

theorem namespace_round_trip_witness:
  "namespace_to_text [''users'', '''', ''a b''] False = ''users..a b''
   \<and> decode_ns_bytes (NsStr ''users..a b'') = [''users'', '''', ''a b'']"
  using namespace_round_trip [of "[''users'', '''', ''a b'']"]
  by (simp add: namespace_to_text_def)


section \<open>Properties of the path extractor\<close>

lemma collect_Inr:
  "(\<And>r. r \<in> set rs \<Longrightarrow> \<exists>xs. r = Inr xs) \<Longrightarrow> \<exists>ys. collect rs = Inr ys"
proof (induction rs)
  case Nil
  then show ?case by simp
next
  case (Cons r rs)
  then obtain xs where "r = Inr xs" by force
  moreover from Cons obtain ys where "collect rs = Inr ys" by force
  ultimately show ?case by simp
qed

lemma py_int_error: "py_int s = Inl e \<Longrightarrow> \<exists>msg. e = ValueError msg"
  by (auto simp: py_int_def Let_def split: option.splits)

lemma extract_from_obj_total: "\<exists>fs. extract_from_obj obj tokens pos = Inr fs"
proof (induction obj tokens pos rule: extract_from_obj.induct)
  case (1 obj tokens pos)
  show ?case
  proof (cases "pos \<ge> length tokens")
    case True
    then show ?thesis by (subst extract_from_obj.simps) simp
  next
    case False
    define token where "token = tokens ! pos"
    show ?thesis
    proof (cases "is_index_token token")
      case idx: True
      show ?thesis
      proof (cases obj)
        case (JList xs)
        show ?thesis
        proof (cases "slice_inner token = ''*''")
          case True
          have "\<exists>ys. collect (map (\<lambda>item. extract_from_obj item tokens (pos + 1)) xs) = Inr ys"
            by (rule collect_Inr) (use 1(1) False idx JList True token_def in auto)
          then show ?thesis
            using False idx JList True token_def by (subst extract_from_obj.simps) simp
        next
          case star: False
          show ?thesis
          proof (cases "py_int (slice_inner token)")
            case (Inl e)
            then obtain msg where "e = ValueError msg"
              using py_int_error by blast
            with Inl show ?thesis
              using False idx JList star token_def
              by (subst extract_from_obj.simps) (simp add: Let_def)
          next
            case (Inr i)
            define j where "j = (if i < 0 then int (length xs) + i else i)"
            show ?thesis
            proof (cases "0 \<le> j \<and> j < int (length xs)")
              case True
              from 1(2) [OF False refl _ JList refl _ _ refl, of i] idx star Inr True
              obtain fs where "extract_from_obj (xs ! nat j) tokens (pos + 1) = Inr fs"
                unfolding j_def token_def by auto
              with Inr True show ?thesis
                using False idx JList star token_def
                by (subst extract_from_obj.simps) (simp add: Let_def j_def)
            next
              case out: False
              with Inr show ?thesis
                using False idx JList star token_def
                by (subst extract_from_obj.simps) (auto simp: Let_def j_def split: if_splits)
            qed
          qed
        qed
      qed (use False idx token_def in \<open>(subst extract_from_obj.simps, simp)+\<close>)
    next
      case nidx: False
      show ?thesis
      proof (cases "is_brace_token token")
        case True
        then show ?thesis
          using False nidx token_def
          by (subst extract_from_obj.simps) (simp split: json.splits)
      next
        case nbr: False
        show ?thesis
        proof (cases "token = ''*''")
          case True
          show ?thesis
          proof (cases obj)
            case (JList xs)
            have "\<exists>ys. collect (map (\<lambda>item. extract_from_obj item tokens (pos + 1)) xs) = Inr ys"
              by (rule collect_Inr) (use 1(3) False nidx nbr JList True token_def in auto)
            then show ?thesis
              using False nidx nbr JList True token_def by (subst extract_from_obj.simps) simp
          next
            case (JDict m)
            have ih: "\<exists>fs. extract_from_obj v tokens (pos + 1) = Inr fs"
              if "v \<in> set (map snd m)" for v
              using 1(4) [OF False refl _ _ _ JDict that] nidx nbr True token_def by simp
            have "\<exists>ys. collect (map (\<lambda>v. extract_from_obj v tokens (pos + 1)) (map snd m)) = Inr ys"
            proof (rule collect_Inr)
              fix r
              assume "r \<in> set (map (\<lambda>v. extract_from_obj v tokens (pos + 1)) (map snd m))"
              then obtain v where "v \<in> set (map snd m)" "r = extract_from_obj v tokens (pos + 1)"
                unfolding set_map by blast
              with ih show "\<exists>xs. r = Inr xs" by simp
            qed
            then show ?thesis
              using False nidx nbr JDict True token_def by (subst extract_from_obj.simps) simp
          qed (use False nidx nbr True token_def in \<open>(subst extract_from_obj.simps, simp)+\<close>)
        next
          case nstar: False
          show ?thesis
          proof (cases obj)
            case (JDict m)
            show ?thesis
            proof (cases "map_of m token")
              case None
              then show ?thesis
                using False nidx nbr nstar JDict token_def by (subst extract_from_obj.simps) simp
            next
              case (Some v)
              then show ?thesis
                using False nidx nbr nstar JDict token_def 1(5)[OF _ refl, of m v]
                by (subst extract_from_obj.simps) simp
            qed
          qed (use False nidx nbr nstar token_def in \<open>(subst extract_from_obj.simps, simp)+\<close>)
        qed
      qed
    qed
  qed
qed

lemma extract_leaf:
  "length tokens \<le> pos \<Longrightarrow>
   extract_from_obj obj tokens pos =
     (if is_scalar obj then Inr [py_str obj]
      else if obj = JNull then Inr []
      else if is_container obj then Inr [json_dumps True obj]
      else Inr [])"
  by (subst extract_from_obj.simps) simp




lemma extract_index_unparsable:
  "pos < length tokens \<Longrightarrow> is_index_token (tokens ! pos) \<Longrightarrow>
   slice_inner (tokens ! pos) \<noteq> ''*'' \<Longrightarrow>
   py_int (slice_inner (tokens ! pos)) = Inl e \<Longrightarrow>
   extract_from_obj (JList xs) tokens pos = Inr []"
  using py_int_error [of "slice_inner (tokens ! pos)" e]
  by (subst extract_from_obj.simps) (auto simp: Let_def)

lemma index_not_brace: "is_brace_token t \<Longrightarrow> \<not> is_index_token t"
  by (auto simp: is_brace_token_def is_index_token_def startswith_def)


lemma extract_brace_map:
  "pos < length tokens \<Longrightarrow> is_brace_token (tokens ! pos) \<Longrightarrow>
   extract_from_obj (JDict m) tokens pos =
     Inr (concat (map (brace_field (JDict m)) (brace_fields (tokens ! pos))))"
  by (subst extract_from_obj.simps) (simp add: index_not_brace)


lemma extract_star_scalar:
  "pos < length tokens \<Longrightarrow> tokens ! pos = ''*'' \<Longrightarrow>
   \<forall>m. obj \<noteq> JDict m \<Longrightarrow> \<forall>xs. obj \<noteq> JList xs \<Longrightarrow>
   extract_from_obj obj tokens pos = Inr []"
  by (subst extract_from_obj.simps)
     (simp add: is_index_token_def is_brace_token_def startswith_def split: json.splits)

lemma extract_text_by_path_total: "\<exists>fs. extract_text_by_path obj p = Inr fs"
  by (simp add: extract_text_by_path_def extract_from_obj_total)


lemma walk_resolve:
  "walk v ts = (case resolve v ts of Some w \<Rightarrow> w | None \<Rightarrow> JNull)"
  by (induction v ts rule: walk.induct) (auto split: json.splits option.splits)

lemma brace_field_null_or_absent:
  "resolve obj (tokenize_path f) = Some JNull \<or> resolve obj (tokenize_path f) = None
   \<Longrightarrow> brace_field obj f = []"
  by (auto simp: brace_field_def walk_resolve Let_def)

lemma concat_map_filter_nonempty:
  "(\<And>x. x \<in> set xs \<Longrightarrow> \<not> P x \<Longrightarrow> g x = []) \<Longrightarrow>
   concat (map g (filter P xs)) = concat (map g xs)"
  by (induction xs) auto


text \<open>
  C10. For a map and a brace token, the result is the concatenation of the
  contributions of the listed fields; a field whose plain walk through the maps ends at
  the JSON null contributes nothing, exactly as a field that is absent does, so the
  result is the one computed from the other fields alone.
\<close>

theorem brace_null_like_absent:
  assumes "pos < length tokens" and "is_brace_token (tokens ! pos)"
  shows "extract_from_obj (JDict m) tokens pos =
           Inr (concat (map (brace_field (JDict m)) (brace_fields (tokens ! pos))))
       \<and> (\<forall>f \<in> set (brace_fields (tokens ! pos)).
            (resolve (JDict m) (tokenize_path f) = Some JNull \<longrightarrow> brace_field (JDict m) f = [])
          \<and> (resolve (JDict m) (tokenize_path f) = None \<longrightarrow> brace_field (JDict m) f = []))
       \<and> extract_from_obj (JDict m) tokens pos =
           Inr (concat (map (brace_field (JDict m))
                  (filter (\<lambda>f. resolve (JDict m) (tokenize_path f) \<noteq> Some JNull
                              \<and> resolve (JDict m) (tokenize_path f) \<noteq> None)
                     (brace_fields (tokens ! pos)))))"
proof -
  have "concat (map (brace_field (JDict m))
          (filter (\<lambda>f. resolve (JDict m) (tokenize_path f) \<noteq> Some JNull
                      \<and> resolve (JDict m) (tokenize_path f) \<noteq> None)
             (brace_fields (tokens ! pos))))
        = concat (map (brace_field (JDict m)) (brace_fields (tokens ! pos)))"
    by (rule concat_map_filter_nonempty) (use brace_field_null_or_absent in blast)
  then show ?thesis
    using extract_brace_map [OF assms] brace_field_null_or_absent by simp
qed

theorem brace_null_like_absent_witness:
  "extract_from_obj (JDict [(''x'', JInt 1), (''y'', JNull)]) [''{x,y,q}''] 0 = Inr [''1'']
   \<and> brace_field (JDict [(''x'', JInt 1), (''y'', JNull)]) ''y'' = []
   \<and> brace_field (JDict [(''x'', JInt 1), (''y'', JNull)]) ''q'' = []
   \<and> resolve (JDict [(''x'', JInt 1), (''y'', JNull)]) (tokenize_path ''y'') = Some JNull
   \<and> resolve (JDict [(''x'', JInt 1), (''y'', JNull)]) (tokenize_path ''q'') = None"
proof -
  have brace: "is_brace_token ([''{x,y,q}''] ! 0)"
    by (simp add: is_brace_token_def startswith_def endswith_def)
  have fields: "brace_fields ([''{x,y,q}''] ! 0) = [''x'', ''y'', ''q'']"
    by code_simp
  have r: "resolve (JDict [(''x'', JInt 1), (''y'', JNull)]) (tokenize_path ''y'') = Some JNull"
    "resolve (JDict [(''x'', JInt 1), (''y'', JNull)]) (tokenize_path ''q'') = None"
    by code_simp+
  have x: "brace_field (JDict [(''x'', JInt 1), (''y'', JNull)]) ''x'' = [''1'']"
    by code_simp
  show ?thesis
    using brace_null_like_absent [of 0 "[''{x,y,q}'']" "[(''x'', JInt 1), (''y'', JNull)]", OF _ brace]
      r x
    unfolding fields by simp
qed

section \<open>Properties of the Put compiler\<close>








lemma group_append_distinct:
  "distinct (map fst groups) \<Longrightarrow> distinct (map fst (group_append k v groups))"
  by (simp add: group_append_def distinct_update)

lemma group_append_map_of:
  "map_of (group_append k v groups) k' =
     (if k' = k then Some ((case map_of groups k of None \<Rightarrow> [] | Some vs \<Rightarrow> vs) @ [v])
      else map_of groups k')"
  by (simp add: group_append_def update_conv')

lemma grouping_distinct:
  "distinct (map fst (foldl (\<lambda>groups x. group_append (f x) (g x) groups) [] xs))"
  by (induction xs rule: rev_induct) (simp_all add: group_append_distinct)

lemma grouping_map_of:
  "map_of (foldl (\<lambda>groups x. group_append (f x) (g x) groups) [] xs) k =
     (case filter (\<lambda>x. f x = k) xs of [] \<Rightarrow> None | ys \<Rightarrow> Some (map g ys))"
proof (induction xs rule: rev_induct)
  case Nil
  then show ?case by simp
next
  case (snoc x xs)
  then show ?case
    by (auto simp: group_append_map_of split: list.splits)
qed



lemma embedding_request_params_total:
  "\<exists>ps. embedding_request_params cfg ins = Inr ps"
proof (cases cfg)
  case None
  then show ?thesis by (simp add: embedding_request_params_def)
next
  case (Some c)
  have inner: "\<exists>ps. collect (map (\<lambda>field.
                  (case extract_text_by_path v field of
                     Inl e \<Rightarrow> Inl e
                   | Inr texts \<Rightarrow> Inr (map (\<lambda>text. (ns, k, field, text)) texts)))
                  fs) = Inr ps" for v ns k fs
  proof (rule collect_Inr)
    fix r
    assume "r \<in> set (map (\<lambda>field.
                  (case extract_text_by_path v field of
                     Inl e \<Rightarrow> Inl e
                   | Inr texts \<Rightarrow> Inr (map (\<lambda>text. (ns, k, field, text)) texts))) fs)"
    then obtain field where
      "r = (case extract_text_by_path v field of
              Inl e \<Rightarrow> Inl e
            | Inr texts \<Rightarrow> Inr (map (\<lambda>text. (ns, k, field, text)) texts))"
      by auto
    moreover obtain texts where "extract_text_by_path v field = Inr texts"
      using extract_text_by_path_total by blast
    ultimately show "\<exists>xs. r = Inr xs" by simp
  qed
  have "\<exists>ps. collect (map (\<lambda>op.
            (let v = JDict (the (val op));
                 ns = namespace_to_text (namespace op) False;
                 k = key op
             in collect (map (\<lambda>field.
                  (case extract_text_by_path v field of
                     Inl e \<Rightarrow> Inl e
                   | Inr texts \<Rightarrow> Inr (map (\<lambda>text. (ns, k, field, text)) texts)))
                  (text_fields_of c))))
            ins) = Inr ps"
  proof (rule collect_Inr)
    fix r
    assume "r \<in> set (map (\<lambda>op.
            (let v = JDict (the (val op));
                 ns = namespace_to_text (namespace op) False;
                 k = key op
             in collect (map (\<lambda>field.
                  (case extract_text_by_path v field of
                     Inl e \<Rightarrow> Inl e
                   | Inr texts \<Rightarrow> Inr (map (\<lambda>text. (ns, k, field, text)) texts)))
                  (text_fields_of c))))
            ins)"
    then show "\<exists>xs. r = Inr xs"
      using inner by (auto simp: Let_def)
  qed
  with Some show ?thesis by (simp add: embedding_request_params_def)
qed






section \<open>Properties of the batch\<close>

lemma foldl_count:
  "foldl (\<lambda>s x. (F (fst s) x, snd s + 1)) (g0, t0) xs = (foldl F g0 xs, t0 + length xs)"
  by (induction xs arbitrary: g0 t0) auto

lemma group_ops_eq:
  "group_ops ops =
     (foldl (\<lambda>groups x. group_append (type_of (snd x)) x groups) [] (enumerate 0 ops),
      length ops)"
  unfolding group_ops_def case_prod_unfold
  using foldl_count [of "\<lambda>g x. group_append (type_of (snd x)) x g" "[]" 0 "enumerate 0 ops"]
  by simp

lemma group_ops_map_of:
  "map_of (fst (group_ops ops)) t =
     (case typed_ops t ops of [] \<Rightarrow> None | xs \<Rightarrow> Some xs)"
  using grouping_map_of [of "\<lambda>x. type_of (snd x)" "\<lambda>x. x" "enumerate 0 ops" t]
  by (auto simp: group_ops_eq typed_ops_def case_prod_unfold split: list.splits)

lemma batch_get_ops_Nil: "batch_get_ops st ev [] results w = (w, Inr results)"
  by (simp add: batch_get_ops_def get_batch_GET_ops_queries_def)

lemma batch_search_ops_Nil: "batch_search_ops st ev [] results w = (w, Inr results)"
  by (simp add: batch_search_ops_def prepare_batch_search_queries_def enumerate_eq_zip
      split: option.splits)

lemma batch_list_namespaces_ops_Nil: "batch_list_namespaces_ops ev [] results w = (w, Inr results)"
  by (simp add: batch_list_namespaces_ops_def get_batch_list_namespaces_queries_def)

lemma batch_put_ops_Nil: "batch_put_ops st [] w = (w, Inr ())"
  by (simp add: batch_put_ops_def prepare_batch_PUT_queries_def inserts_def deletes_def
      dedupped_ops_def delete_queries_def execute_all_def)

lemma run_if_present_eq:
  assumes "\<And>results w. phase [] results w = (w, Inr results)"
  shows "run_if_present (fst (group_ops ops)) t phase state
           = then_phase state (phase (typed_ops t ops))"
  using assms
  by (auto simp: run_if_present_def then_phase_def group_ops_map_of
      split: prod.splits sum.splits list.splits)

lemma batch_phases:
  "batch st ev ops w =
     then_phase
       (then_phase
          (then_phase
             (batch_get_ops st ev (typed_ops GetOpT ops) (replicate (length ops) RNone) w)
             (batch_search_ops st ev (typed_ops SearchOpT ops)))
          (batch_list_namespaces_ops ev (typed_ops ListNamespacesOpT ops)))
       (\<lambda>results w'.
          (case batch_put_ops st (typed_ops PutOpT ops) w' of
             (w'', Inl e) \<Rightarrow> (w'', Inl e)
           | (w'', Inr _) \<Rightarrow> (w'', Inr results)))"
proof -
  obtain g n where g: "group_ops ops = (g, n)" by (cases "group_ops ops")
  then have n: "n = length ops" and gf: "g = fst (group_ops ops)"
    by (simp_all add: group_ops_eq)
  have put: "(case batch_put_ops st [] w of
               (w'', Inl e) \<Rightarrow> (w'', Inl e)
             | (w'', Inr _) \<Rightarrow> (w'', Inr results)) = (w, Inr results)"
    for w and results :: "result list"
    by (simp add: batch_put_ops_Nil)
  have first: "run_if_present g GetOpT (batch_get_ops st ev) (w, Inr (replicate n RNone))
                 = batch_get_ops st ev (typed_ops GetOpT ops) (replicate (length ops) RNone) w"
    unfolding gf n
    by (subst run_if_present_eq) (simp_all add: batch_get_ops_Nil then_phase_def)
  show ?thesis
    unfolding batch_def g
    apply (simp only: prod.case Let_def first)
    unfolding gf
    apply (subst run_if_present_eq, rule put)
    apply (subst run_if_present_eq, rule batch_list_namespaces_ops_Nil)
    apply (subst run_if_present_eq, rule batch_search_ops_Nil)
    apply (rule refl)
    done
qed

lemma apply_all_Nil [simp]: "apply_all [] rs = rs"
  by (simp add: apply_all_def)

lemma apply_all_Cons [simp]: "apply_all ((i, r) # as) rs = apply_all as (rs[i := r])"
  by (simp add: apply_all_def)

lemma apply_all_append: "apply_all (as @ bs) rs = apply_all bs (apply_all as rs)"
  by (simp add: apply_all_def)

lemma length_apply_all [simp]: "length (apply_all as rs) = length rs"
  by (induction as arbitrary: rs) auto



lemma assign_gets_eq:
  "\<forall>x \<in> set items. fst x < length results \<Longrightarrow>
   assign_gets st ev ns k2r items results =
     Inr (apply_all (map (\<lambda>x. (fst x, get_value st ev ns k2r (snd x))) items) results)"
  by (induction items arbitrary: results) (auto simp: set_result_def)

lemma execute_all_Nil [simp]: "execute_all [] w = w"
  by (simp add: execute_all_def)

lemma execute_all_Cons [simp]: "execute_all (s # ss) w = execute_all ss (execute s w)"
  by (simp add: execute_all_def)

lemma execute_all_append: "execute_all (ss @ ts) w = execute_all ts (execute_all ss w)"
  by (simp add: execute_all_def)

lemma executed_execute_all: "executed (execute_all ss w) = executed w @ ss"
  by (induction ss arbitrary: w) (auto simp: execute_def)

lemma embed_calls_execute_all [simp]: "embed_calls (execute_all ss w) = embed_calls w"
  by (induction ss arbitrary: w) (auto simp: execute_def)

lemma get_loop_eq:
  "\<forall>g \<in> set groups. \<forall>x \<in> set (snd (snd (snd g))). fst x < length results \<Longrightarrow>
   get_loop st ev groups results w =
     (execute_all (get_statements groups) w,
      Inr (apply_all (get_assignments st ev groups) results))"
proof (induction groups arbitrary: results w)
  case Nil
  then show ?case by (simp add: get_statements_def get_assignments_def)
next
  case (Cons g groups)
  obtain q params ns items where g: "g = (q, params, ns, items)"
    by (cases g) auto
  let ?as = "map (\<lambda>x. (fst x, get_value st ev ns (key_to_row (fetchall ev (q, params))) (snd x))) items"
  have a: "assign_gets st ev ns (key_to_row (fetchall ev (q, params))) items results
             = Inr (apply_all ?as results)"
    using Cons.prems g by (intro assign_gets_eq) auto
  have "get_loop st ev groups (apply_all ?as results) (execute (q, params) w)
          = (execute_all (get_statements groups) (execute (q, params) w),
             Inr (apply_all (get_assignments st ev groups) (apply_all ?as results)))"
    using Cons.prems by (intro Cons.IH) auto
  then show ?case
    by (simp add: g a Let_def get_statements_def get_assignments_def apply_all_append
        case_prod_unfold)
qed

lemma search_loop_eq:
  "\<forall>z \<in> set zs. fst (fst z) < length results \<Longrightarrow>
   search_loop st ev zs results w =
     (execute_all (map snd zs) w, Inr (apply_all (search_assignments st ev zs) results))"
proof (induction zs arbitrary: results w)
  case Nil
  then show ?case by (simp add: search_assignments_def)
next
  case (Cons z zs)
  obtain idx op stmt where z: "z = ((idx, op), stmt)"
    by (cases z) auto
  from Cons.prems z have "idx < length results" by simp
  moreover have "search_loop st ev zs
          (results[idx := RItems (search_items st ev (fetchall ev stmt))]) (execute stmt w)
        = (execute_all (map snd zs) (execute stmt w),
           Inr (apply_all (search_assignments st ev zs)
                  (results[idx := RItems (search_items st ev (fetchall ev stmt))])))"
    using Cons.prems by (intro Cons.IH) auto
  ultimately show ?case
    by (simp add: z Let_def set_result_def search_assignments_def)
qed

lemma list_loop_eq:
  "\<forall>z \<in> set zs. fst (snd z) < length results \<Longrightarrow>
   list_loop ev zs results w =
     (execute_all (map fst zs) w, Inr (apply_all (list_assignments ev zs) results))"
proof (induction zs arbitrary: results w)
  case Nil
  then show ?case by (simp add: list_assignments_def)
next
  case (Cons z zs)
  obtain idx op stmt where z: "z = (stmt, (idx, op))"
    by (cases z) auto
  from Cons.prems z have "idx < length results" by simp
  moreover have "list_loop ev zs
          (results[idx := RNamespaces (map decode_ns_bytes (fetch_namespaces ev stmt))])
          (execute stmt w)
        = (execute_all (map fst zs) (execute stmt w),
           Inr (apply_all (list_assignments ev zs)
                  (results[idx := RNamespaces (map decode_ns_bytes (fetch_namespaces ev stmt))])))"
    using Cons.prems by (intro Cons.IH) auto
  ultimately show ?case
    by (simp add: z Let_def set_result_def list_assignments_def)
qed

lemma typed_ops_member:
  "(i, op) \<in> set (typed_ops t ops) \<longleftrightarrow> i < length ops \<and> ops ! i = op \<and> type_of op = t"
  by (auto simp: typed_ops_def in_set_enumerate_eq)


lemma typed_ops_index_bound: "x \<in> set (typed_ops t ops) \<Longrightarrow> fst x < length ops"
  using typed_ops_member [of "fst x" "snd x" t ops] by simp




lemma grouping_member:
  assumes "(k, vs) \<in> set (foldl (\<lambda>groups x. group_append (f x) (g x) groups) [] xs)"
  shows "vs = map g (filter (\<lambda>x. f x = k) xs) \<and> vs \<noteq> []"
proof -
  have "map_of (foldl (\<lambda>groups x. group_append (f x) (g x) groups) [] xs) k = Some vs"
    using assms grouping_distinct [of f g xs] by simp
  then show ?thesis
    by (auto simp: grouping_map_of split: list.splits)
qed

lemma get_groups_eq:
  "get_batch_GET_ops_queries get_ops =
     map (\<lambda>e. (fst (get_statement (fst e) (map snd (snd e))),
                snd (get_statement (fst e) (map snd (snd e))), fst e, snd e))
       (foldl (\<lambda>groups x. group_append (namespace (snd x)) (fst x, key (snd x)) groups) [] get_ops)"
  by (simp add: get_batch_GET_ops_queries_def case_prod_unfold)

lemma get_groups_member:
  assumes "g \<in> set (get_batch_GET_ops_queries get_ops)"
  shows "\<exists>ns. g = (fst (get_statement ns (namespace_keys ns get_ops)),
                   snd (get_statement ns (namespace_keys ns get_ops)), ns,
                   map (\<lambda>x. (fst x, key (snd x))) (filter (\<lambda>x. namespace (snd x) = ns) get_ops))"
proof -
  from assms obtain e where
    e: "e \<in> set (foldl (\<lambda>groups x. group_append (namespace (snd x)) (fst x, key (snd x)) groups) [] get_ops)"
    and g: "g = (fst (get_statement (fst e) (map snd (snd e))),
                 snd (get_statement (fst e) (map snd (snd e))), fst e, snd e)"
    unfolding get_groups_eq by auto
  from e have "snd e = map (\<lambda>x. (fst x, key (snd x))) (filter (\<lambda>x. namespace (snd x) = fst e) get_ops)"
    using grouping_member [of "fst e" "snd e" "\<lambda>x. namespace (snd x)" "\<lambda>x. (fst x, key (snd x))" get_ops]
    by simp
  with g show ?thesis
    by (intro exI [of _ "fst e"]) (simp add: namespace_keys_def comp_def)
qed




lemma batch_get_ops_typed:
  assumes "length results = length ops"
  shows "batch_get_ops st ev (typed_ops GetOpT ops) results w =
           (execute_all (get_statements (get_batch_GET_ops_queries (typed_ops GetOpT ops))) w,
            Inr (apply_all (get_assignments st ev
                              (get_batch_GET_ops_queries (typed_ops GetOpT ops))) results))"
  unfolding batch_get_ops_def
proof (rule get_loop_eq, intro ballI)
  fix g x
  assume "g \<in> set (get_batch_GET_ops_queries (typed_ops GetOpT ops))"
    and "x \<in> set (snd (snd (snd g)))"
  then obtain y where "y \<in> set (typed_ops GetOpT ops)" "fst x = fst y"
    using get_groups_member [of g "typed_ops GetOpT ops"] by auto
  then show "fst x < length results"
    using typed_ops_index_bound [of y GetOpT ops] assms by simp
qed

lemma sequence_Inr:
  "sequence (map f xs) = Inr ys \<Longrightarrow>
   length ys = length xs \<and> (\<forall>j < length xs. f (xs ! j) = Inr (ys ! j))"
proof (induction xs arbitrary: ys)
  case Nil
  then show ?case by simp
next
  case (Cons x xs)
  from Cons.prems obtain y ys' where
    y: "f x = Inr y" and ys': "sequence (map f xs) = Inr ys'" and ys: "ys = y # ys'"
    by (auto split: sum.splits)
  from Cons.IH [OF ys'] y ys show ?case
    by (auto simp: nth_Cons split: nat.splits)
qed

lemma sequence_Inl:
  "sequence (map f xs) = Inl e \<Longrightarrow> \<exists>x \<in> set xs. f x = Inl e"
  by (induction xs) (auto split: sum.splits)

lemma sequence_fails:
  "x \<in> set xs \<Longrightarrow> f x = Inl e \<Longrightarrow> \<exists>e'. sequence (map f xs) = Inl e'"
  by (induction xs) (auto split: sum.splits)

lemma sequence_all_Inr:
  "(\<And>x. x \<in> set xs \<Longrightarrow> \<exists>y. f x = Inr y) \<Longrightarrow> \<exists>ys. sequence (map f xs) = Inr ys"
proof (induction xs)
  case Nil
  then show ?case by simp
next
  case (Cons x xs)
  then obtain y where "f x = Inr y" by force
  moreover from Cons obtain ys where "sequence (map f xs) = Inr ys" by force
  ultimately show ?case by simp
qed

lemma fill_embeddings_length [simp]: "length (fill_embeddings qs fs) = length qs"
  unfolding fill_embeddings_def
  by (induction fs arbitrary: qs) (auto simp: case_prod_unfold)



lemma filled_queries_length [simp]: "length (filled_queries st qs reqs) = length qs"
  by (simp add: filled_queries_def split: option.splits)


lemma prepare_search_Inr:
  assumes "prepare_batch_search_queries cfg search_ops = Inr (queries, reqs)"
  shows "length queries = length search_ops"
    and "\<forall>j < length search_ops. search_query cfg (snd (search_ops ! j)) = Inr (queries ! j)"
    and "reqs = map (\<lambda>x. (fst x, the (query (snd (snd x)))))
                  (filter (\<lambda>x. needs_vector_search cfg (snd (snd x))) (enumerate 0 search_ops))"
proof -
  from assms have s: "sequence (map (\<lambda>x. search_query cfg (snd x)) search_ops) = Inr queries"
    and r: "reqs = map (\<lambda>x. (fst x, the (query (snd (snd x)))))
                  (filter (\<lambda>x. needs_vector_search cfg (snd (snd x))) (enumerate 0 search_ops))"
    by (auto simp: prepare_batch_search_queries_def case_prod_unfold split: sum.splits)
  from sequence_Inr [OF s] show "length queries = length search_ops"
    and "\<forall>j < length search_ops. search_query cfg (snd (search_ops ! j)) = Inr (queries ! j)"
    by auto
  from r show "reqs = map (\<lambda>x. (fst x, the (query (snd (snd x)))))
                  (filter (\<lambda>x. needs_vector_search cfg (snd (snd x))) (enumerate 0 search_ops))" .
qed

lemma filter_enumerate_snd:
  "map snd (filter (\<lambda>x. P (snd x)) (enumerate n xs)) = filter P xs"
  by (induction xs arbitrary: n) auto

lemma prepare_search_texts:
  assumes "prepare_batch_search_queries (embedding_config st) search_ops = Inr (queries, reqs)"
  shows "map snd reqs = search_texts st search_ops"
proof -
  have "map snd reqs = map (\<lambda>x. the (query (snd x)))
          (map snd (filter (\<lambda>x. needs_vector_search (embedding_config st) (snd (snd x)))
                      (enumerate 0 search_ops)))"
    unfolding prepare_search_Inr(3) [OF assms] by (simp add: comp_def)
  also have "\<dots> = search_texts st search_ops"
    unfolding search_texts_def
    using filter_enumerate_snd [of "\<lambda>x. needs_vector_search (embedding_config st) (snd x)" 0 search_ops]
    by simp
  finally show ?thesis .
qed

lemma search_texts_no_config:
  "embedding_config st = None \<Longrightarrow> search_texts st search_ops = []"
  by (simp add: search_texts_def needs_vector_search_def)

lemma batch_search_ops_fails:
  "prepare_batch_search_queries (embedding_config st) search_ops = Inl e \<Longrightarrow>
   batch_search_ops st ev search_ops results w = (w, Inl e)"
  by (simp add: batch_search_ops_def)

lemma batch_search_ops_typed:
  assumes prep: "prepare_batch_search_queries (embedding_config st) (typed_ops SearchOpT ops)
                   = Inr (queries, reqs)"
    and len: "length results = length ops"
  shows "batch_search_ops st ev (typed_ops SearchOpT ops) results w =
           (execute_all (filled_queries st queries reqs)
              (embed_once (search_texts st (typed_ops SearchOpT ops)) w),
            Inr (apply_all (search_assignments st ev
                   (zip (typed_ops SearchOpT ops) (filled_queries st queries reqs))) results))"
proof -
  let ?sops = "typed_ops SearchOpT ops"
  have lq: "length queries = length ?sops"
    using prepare_search_Inr(1) [OF prep] .
  have texts: "map snd reqs = search_texts st ?sops"
    using prepare_search_texts [OF prep] .
  have loop: "search_loop st ev (zip ?sops qs) results w' =
     (execute_all qs w', Inr (apply_all (search_assignments st ev (zip ?sops qs)) results))"
    if "length qs = length ?sops" for qs w'
  proof -
    have "\<forall>z \<in> set (zip ?sops qs). fst (fst z) < length results"
      using typed_ops_index_bound [of _ SearchOpT ops] len
      by (auto dest!: set_zip_leftD)
    from search_loop_eq [OF this] that show ?thesis by simp
  qed
  show ?thesis
  proof (cases "embedding_config st")
    case None
    then show ?thesis
      using prep loop [of queries w] lq
      by (simp add: batch_search_ops_def filled_queries_def embed_once_def
          search_texts_no_config)
  next
    case (Some cfg)
    show ?thesis
    proof (cases "reqs = []")
      case True
      then show ?thesis
        using prep loop [of queries w] lq Some texts
        by (simp add: batch_search_ops_def filled_queries_def embed_once_def)
    next
      case False
      then have "search_texts st ?sops \<noteq> []" using texts by auto
      then show ?thesis
        using prep False Some texts lq
          loop [of "fill_embeddings queries (zip reqs (embed cfg (map snd reqs)))"
                   "call_embed (map snd reqs) w"]
        by (simp add: batch_search_ops_def filled_queries_def embed_once_def Let_def)
    qed
  qed
qed

lemma batch_list_namespaces_ops_typed:
  assumes "length results = length ops"
  shows "batch_list_namespaces_ops ev (typed_ops ListNamespacesOpT ops) results w =
           (execute_all (get_batch_list_namespaces_queries (typed_ops ListNamespacesOpT ops)) w,
            Inr (apply_all (list_assignments ev
                   (zip (get_batch_list_namespaces_queries (typed_ops ListNamespacesOpT ops))
                        (typed_ops ListNamespacesOpT ops))) results))"
proof -
  let ?lops = "typed_ops ListNamespacesOpT ops"
  have "\<forall>z \<in> set (zip (get_batch_list_namespaces_queries ?lops) ?lops). fst (snd z) < length results"
    using typed_ops_index_bound [of _ ListNamespacesOpT ops] assms
    by (auto dest!: set_zip_rightD)
  from list_loop_eq [OF this] show ?thesis
    by (simp add: batch_list_namespaces_ops_def get_batch_list_namespaces_queries_def)
qed

lemma embedding_request_params_no_config: "embedding_request_params None ins = Inr []"
  by (simp add: embedding_request_params_def)

lemma embed_calls_embed_once:
  "embed_calls (embed_once texts w) = embed_calls w @ (if texts \<noteq> [] then [texts] else [])"
  by (simp add: embed_once_def call_embed_def)

lemma executed_embed_once [simp]: "executed (embed_once texts w) = executed w"
  by (simp add: embed_once_def call_embed_def)

lemma batch_put_ops_ok:
  "\<exists>w'. batch_put_ops st put_ops w = (w', Inr ())
        \<and> embed_calls w' = embed_calls (embed_once (put_texts st put_ops) w)
        \<and> (\<exists>ss. executed w' = executed w @ ss)"
proof -
  obtain rp where rp: "embedding_request_params (embedding_config st) (inserts put_ops) = Inr rp"
    using embedding_request_params_total by blast
  show ?thesis
  proof (cases "inserts put_ops \<noteq> [] \<and> rp \<noteq> []")
    case False
    then have "prepare_batch_PUT_queries (embedding_config st) put_ops
        = Inr (delete_queries (deletes put_ops)
                 @ (if inserts put_ops \<noteq> [] then [insert_query (inserts put_ops)] else []), None)"
      using rp by (auto simp: prepare_batch_PUT_queries_def Let_def)
    moreover have "put_texts st put_ops = []"
    proof (cases "inserts put_ops = []")
      case True
      then show ?thesis
        by (simp add: put_texts_def embedding_request_params_def split: option.splits)
    next
      case ne: False
      with False have "rp = []" by simp
      then show ?thesis by (simp add: put_texts_def rp)
    qed
    ultimately show ?thesis
      by (simp add: batch_put_ops_def embed_once_def executed_execute_all)
  next
    case True
    then have prep: "prepare_batch_PUT_queries (embedding_config st) put_ops
        = Inr (delete_queries (deletes put_ops) @ [insert_query (inserts put_ops)],
               Some (vector_query (length rp), rp))"
      using rp by (auto simp: prepare_batch_PUT_queries_def Let_def)
    from True rp obtain cfg where cfg: "embedding_config st = Some cfg"
      by (cases "embedding_config st") (auto simp: embedding_request_params_no_config)
    have texts: "put_texts st put_ops = map (\<lambda>(ns, k, field, text). text) rp"
      by (simp add: put_texts_def rp)
    with True have "put_texts st put_ops \<noteq> []" by simp
    then show ?thesis
      using prep cfg texts
      by (simp add: batch_put_ops_def Let_def embed_once_def call_embed_def
          executed_execute_all)
  qed
qed

lemma batch_failure:
  assumes "prepare_batch_search_queries (embedding_config st) (typed_ops SearchOpT ops) = Inl e"
  shows "batch st ev ops w = (execute_all (batch_get_statements ops) w, Inl e)"
  unfolding batch_phases
  by (simp add: batch_get_ops_typed batch_search_ops_fails [OF assms] then_phase_def
      batch_get_statements_def)

lemma batch_success:
  assumes prep: "prepare_batch_search_queries (embedding_config st) (typed_ops SearchOpT ops)
                   = Inr (queries, reqs)"
  shows "\<exists>w'. batch st ev ops w =
                (w', Inr (apply_all (batch_assignments st ev ops (filled_queries st queries reqs))
                            (replicate (length ops) RNone)))
        \<and> embed_calls w' =
            embed_calls w
            @ (if search_texts st (typed_ops SearchOpT ops) \<noteq> []
               then [search_texts st (typed_ops SearchOpT ops)] else [])
            @ (if put_texts st (typed_ops PutOpT ops) \<noteq> []
               then [put_texts st (typed_ops PutOpT ops)] else [])"
proof -
  let ?r0 = "replicate (length ops) RNone"
  let ?GA = "get_assignments st ev (get_batch_GET_ops_queries (typed_ops GetOpT ops))"
  let ?SA = "search_assignments st ev
               (zip (typed_ops SearchOpT ops) (filled_queries st queries reqs))"
  let ?LA = "list_assignments ev
         (zip (get_batch_list_namespaces_queries (typed_ops ListNamespacesOpT ops))
              (typed_ops ListNamespacesOpT ops))"
  let ?w1 = "execute_all (batch_get_statements ops) w"
  let ?w2 = "execute_all (filled_queries st queries reqs)
               (embed_once (search_texts st (typed_ops SearchOpT ops)) ?w1)"
  let ?w3 = "execute_all (get_batch_list_namespaces_queries (typed_ops ListNamespacesOpT ops)) ?w2"
  have p1: "batch_get_ops st ev (typed_ops GetOpT ops) ?r0 w = (?w1, Inr (apply_all ?GA ?r0))"
    by (simp add: batch_get_ops_typed batch_get_statements_def)
  have p2: "batch_search_ops st ev (typed_ops SearchOpT ops) (apply_all ?GA ?r0) ?w1
              = (?w2, Inr (apply_all ?SA (apply_all ?GA ?r0)))"
    by (rule batch_search_ops_typed [OF prep]) simp
  have p3: "batch_list_namespaces_ops ev (typed_ops ListNamespacesOpT ops)
              (apply_all ?SA (apply_all ?GA ?r0)) ?w2
              = (?w3, Inr (apply_all ?LA (apply_all ?SA (apply_all ?GA ?r0))))"
    by (rule batch_list_namespaces_ops_typed) simp
  obtain w4 where p4: "batch_put_ops st (typed_ops PutOpT ops) ?w3 = (w4, Inr ())"
    and e4: "embed_calls w4 = embed_calls (embed_once (put_texts st (typed_ops PutOpT ops)) ?w3)"
    using batch_put_ops_ok by blast
  have "batch st ev ops w = (w4, Inr (apply_all ?LA (apply_all ?SA (apply_all ?GA ?r0))))"
    unfolding batch_phases by (simp add: p1 p2 p3 p4 then_phase_def)
  moreover have "apply_all ?LA (apply_all ?SA (apply_all ?GA ?r0))
      = apply_all (batch_assignments st ev ops (filled_queries st queries reqs)) ?r0"
    by (simp add: batch_assignments_def apply_all_append)
  moreover have "embed_calls w4 =
            embed_calls w
            @ (if search_texts st (typed_ops SearchOpT ops) \<noteq> []
               then [search_texts st (typed_ops SearchOpT ops)] else [])
            @ (if put_texts st (typed_ops PutOpT ops) \<noteq> []
               then [put_texts st (typed_ops PutOpT ops)] else [])"
    unfolding e4 by (simp add: embed_calls_embed_once)
  ultimately show ?thesis by simp
qed











section \<open>Properties of the filter compiler and of failing batches\<close>

lemma get_filter_condition_unsupported:
  "op_name \<notin> supported_operators \<Longrightarrow>
   get_filter_condition k op_name v = Inl (UnsupportedOperator op_name)"
  by (simp add: get_filter_condition_def supported_operators_def UnsupportedOperator_def)

lemma get_filter_condition_supported:
  "op_name \<in> supported_operators \<Longrightarrow> \<exists>c. get_filter_condition k op_name v = Inr c"
  by (auto simp: get_filter_condition_def supported_operators_def)

lemma get_filter_condition_Inl:
  "get_filter_condition k op_name v = Inl e \<Longrightarrow>
   op_name \<notin> supported_operators \<and> e = UnsupportedOperator op_name"
  by (auto simp: get_filter_condition_def supported_operators_def UnsupportedOperator_def
      split: if_splits)

lemma filter_entry_Inl:
  assumes "filter_entry kv = Inl e"
  shows "\<exists>bad. bad \<notin> supported_operators \<and> e = UnsupportedOperator bad"
proof -
  obtain k v where kv: "kv = (k, v)" by (cases kv)
  from assms kv obtain d where v: "v = JDict d"
    and s: "sequence (map (\<lambda>x. get_filter_condition k (fst x) (snd x)) d) = Inl e"
    by (auto simp: filter_entry_def case_prod_unfold split: json.splits)
  from sequence_Inl [OF s] obtain x where "get_filter_condition k (fst x) (snd x) = Inl e"
    by auto
  from get_filter_condition_Inl [OF this] show ?thesis by blast
qed

lemma filter_conditions_Inl:
  assumes "filter_conditions f = Inl e"
  shows "\<exists>bad. bad \<notin> supported_operators \<and> e = UnsupportedOperator bad"
proof -
  from assms obtain d where "sequence (map filter_entry d) = Inl e"
    by (auto simp: filter_conditions_def split: option.splits if_splits sum.splits)
  from sequence_Inl [OF this] obtain kv where "filter_entry kv = Inl e" by auto
  then show ?thesis by (rule filter_entry_Inl)
qed

lemma search_query_Inl:
  "search_query cfg op = Inl e \<Longrightarrow> filter_conditions (filter_of op) = Inl e"
  by (auto simp: search_query_def Let_def split: sum.splits)

lemma prepare_search_Inl:
  assumes "prepare_batch_search_queries cfg search_ops = Inl e"
  shows "\<exists>bad. bad \<notin> supported_operators \<and> e = UnsupportedOperator bad"
proof -
  from assms have "sequence (map (\<lambda>x. search_query cfg (snd x)) search_ops) = Inl e"
    by (auto simp: prepare_batch_search_queries_def case_prod_unfold split: sum.splits)
  from sequence_Inl [OF this] obtain x where "search_query cfg (snd x) = Inl e" by auto
  then have "filter_conditions (filter_of (snd x)) = Inl e" by (rule search_query_Inl)
  then show ?thesis by (rule filter_conditions_Inl)
qed

lemma filter_entry_fails:
  assumes "(op_name, x) \<in> set d" and "op_name \<notin> supported_operators"
  shows "\<exists>e. filter_entry (k, JDict d) = Inl e"
proof -
  have "get_filter_condition k (fst (op_name, x)) (snd (op_name, x)) = Inl (UnsupportedOperator op_name)"
    using assms(2) by (simp add: get_filter_condition_unsupported)
  from sequence_fails [of "(op_name, x)" d "\<lambda>x. get_filter_condition k (fst x) (snd x)", OF assms(1) this]
  show ?thesis by (simp add: filter_entry_def case_prod_unfold)
qed

lemma has_unsupported_operator_fails:
  assumes "has_unsupported_operator op"
  shows "\<exists>e. search_query cfg op = Inl e"
proof -
  from assms obtain d k e op_name x where
    f: "filter_of op = Some d" and kv: "(k, JDict e) \<in> set d"
    and bad: "(op_name, x) \<in> set e" "op_name \<notin> supported_operators"
    by (auto simp: has_unsupported_operator_def list_ex_iff split: option.splits json.splits)
  from filter_entry_fails [OF bad] obtain err where "filter_entry (k, JDict e) = Inl err"
    by blast
  from sequence_fails [of "(k, JDict e)" d filter_entry, OF kv this]
  obtain err' where "sequence (map filter_entry d) = Inl err'"
    by blast
  moreover from kv have "d \<noteq> []" by auto
  ultimately have "filter_conditions (filter_of op) = Inl err'"
    by (simp add: filter_conditions_def f)
  then show ?thesis
    by (simp add: search_query_def Let_def)
qed

lemma prepare_search_fails:
  assumes "i < length ops" and "type_of (ops ! i) = SearchOpT"
    and "has_unsupported_operator (ops ! i)"
  shows "\<exists>e. prepare_batch_search_queries cfg (typed_ops SearchOpT ops) = Inl e"
proof -
  have m: "(i, ops ! i) \<in> set (typed_ops SearchOpT ops)"
    using assms by (simp add: typed_ops_member)
  obtain e where "search_query cfg (snd (i, ops ! i)) = Inl e"
    using has_unsupported_operator_fails [OF assms(3)] by auto
  from sequence_fails [of "(i, ops ! i)" "typed_ops SearchOpT ops" "\<lambda>x. search_query cfg (snd x)", OF m this]
  show ?thesis
    by (auto simp: prepare_batch_search_queries_def case_prod_unfold)
qed

lemma put_texts_no_config: "embedding_config st = None \<Longrightarrow> put_texts st put_ops = []"
  by (simp add: put_texts_def embedding_request_params_no_config)

lemma batch_embed_calls:
  "embed_calls (fst (batch st ev ops w)) =
     embed_calls w
     @ (case prepare_batch_search_queries (embedding_config st) (typed_ops SearchOpT ops) of
          Inl e \<Rightarrow> []
        | Inr compiled \<Rightarrow>
            (if search_texts st (typed_ops SearchOpT ops) \<noteq> []
             then [search_texts st (typed_ops SearchOpT ops)] else [])
            @ (if put_texts st (typed_ops PutOpT ops) \<noteq> []
               then [put_texts st (typed_ops PutOpT ops)] else []))"
proof (cases "prepare_batch_search_queries (embedding_config st) (typed_ops SearchOpT ops)")
  case (Inl e)
  then show ?thesis by (simp add: batch_failure [OF Inl])
next
  case (Inr compiled)
  obtain queries reqs where c: "compiled = (queries, reqs)" by (cases compiled)
  from batch_success [OF Inr [unfolded c], of ev w] show ?thesis
    by (auto simp: Inr)
qed

lemma batch_error:
  "snd (batch st ev ops w) = Inl e \<Longrightarrow>
   \<exists>bad. bad \<notin> supported_operators \<and> e = UnsupportedOperator bad"
proof (cases "prepare_batch_search_queries (embedding_config st) (typed_ops SearchOpT ops)")
  case (Inl e')
  assume "snd (batch st ev ops w) = Inl e"
  with batch_failure [OF Inl, of ev w] have "e = e'" by simp
  with prepare_search_Inl [OF Inl] show ?thesis by simp
next
  case (Inr compiled)
  assume a: "snd (batch st ev ops w) = Inl e"
  obtain queries reqs where c: "compiled = (queries, reqs)" by (cases compiled)
  from batch_success [OF Inr [unfolded c], of ev w] a show ?thesis by auto
qed

text \<open>
  C6 (as amended). An operator outside the six supported ones makes
  \<open>_get_filter_condition\<close> raise the unsupported-operator error, and each of the six
  compiles. A batch with a Search whose filter has such an operator fails with that
  error for some unsupported operator while the Searches are compiled: by then exactly
  the statements of the Gets of the batch have been executed, and no Search,
  ListNamespaces or Put statement is.
\<close>

theorem unsupported_operator_aborts:
  "(op_name \<notin> supported_operators \<longrightarrow>
      get_filter_condition k op_name v = Inl (UnsupportedOperator op_name))
   \<and> (op_name \<in> supported_operators \<longrightarrow> (\<exists>c. get_filter_condition k op_name v = Inr c))
   \<and> (i < length ops \<and> type_of (ops ! i) = SearchOpT \<and> has_unsupported_operator (ops ! i) \<longrightarrow>
        (\<exists>bad. bad \<notin> supported_operators
           \<and> batch st ev ops w =
               (execute_all (batch_get_statements ops) w, Inl (UnsupportedOperator bad))))"
proof (intro conjI impI)
  assume "op_name \<notin> supported_operators"
  then show "get_filter_condition k op_name v = Inl (UnsupportedOperator op_name)"
    by (rule get_filter_condition_unsupported)
next
  assume "op_name \<in> supported_operators"
  then show "\<exists>c. get_filter_condition k op_name v = Inr c"
    by (rule get_filter_condition_supported)
next
  assume a: "i < length ops \<and> type_of (ops ! i) = SearchOpT \<and> has_unsupported_operator (ops ! i)"
  then obtain e where
    e: "prepare_batch_search_queries (embedding_config st) (typed_ops SearchOpT ops) = Inl e"
    using prepare_search_fails [of i ops "embedding_config st"] by blast
  from prepare_search_Inl [OF e] obtain bad where
    "bad \<notin> supported_operators" "e = UnsupportedOperator bad" by blast
  with batch_failure [OF e, of ev w]
  show "\<exists>bad. bad \<notin> supported_operators
           \<and> batch st ev ops w =
               (execute_all (batch_get_statements ops) w, Inl (UnsupportedOperator bad))"
    by blast
qed

theorem unsupported_operator_aborts_witness:
  "get_filter_condition ''score'' ''$foo'' (JInt 1) = Inl (UnsupportedOperator ''$foo'')
   \<and> get_filter_condition ''score'' ''$gte'' (JInt 1) = Inr (''value->>%s >= %s'', [PStr ''score'', PStr ''1''])
   \<and> snd (batch example_store example_env
            [SearchOp [''users''] (Some [(''score'', JDict [(''$foo'', JInt 1)])]) 10 0 None,
             PutOp [''users''] ''k9'' (Some [(''a'', JInt 9)])] empty_world)
       = Inl (UnsupportedOperator ''$foo'')
   \<and> executed (fst (batch example_store example_env
            [SearchOp [''users''] (Some [(''score'', JDict [(''$foo'', JInt 1)])]) 10 0 None,
             PutOp [''users''] ''k9'' (Some [(''a'', JInt 9)])] empty_world)) = []"
proof -
  let ?ops = "[SearchOp [''users''] (Some [(''score'', JDict [(''$foo'', JInt 1)])]) 10 0 None,
               PutOp [''users''] ''k9'' (Some [(''a'', JInt 9)])]"
  have foo: "''$foo'' \<notin> supported_operators" and gte: "''$gte'' \<in> supported_operators"
    by (simp_all add: supported_operators_def)
  have bad: "0 < length ?ops \<and> type_of (?ops ! 0) = SearchOpT \<and> has_unsupported_operator (?ops ! 0)"
    by (simp add: has_unsupported_operator_def supported_operators_def)
  have gets: "batch_get_statements ?ops = []"
    by (simp add: batch_get_statements_def typed_ops_def get_batch_GET_ops_queries_def
        get_statements_def)
  from unsupported_operator_aborts [of "''$foo''" "''score''" "JInt 1" 0 ?ops
      example_store example_env empty_world] foo bad
  obtain b where
    1: "get_filter_condition ''score'' ''$foo'' (JInt 1) = Inl (UnsupportedOperator ''$foo'')"
    and 2: "batch example_store example_env ?ops empty_world
              = (execute_all (batch_get_statements ?ops) empty_world, Inl (UnsupportedOperator b))"
    by blast
  have 3: "snd (batch example_store example_env ?ops empty_world) = Inl (UnsupportedOperator ''$foo'')"
    by code_simp
  have 4: "get_filter_condition ''score'' ''$gte'' (JInt 1)
             = Inr (''value->>%s >= %s'', [PStr ''score'', PStr ''1''])"
    by code_simp
  from 2 gets have "executed (fst (batch example_store example_env ?ops empty_world)) = []"
    by (simp add: empty_world_def)
  with 1 3 4 show ?thesis by simp
qed

theorem unsupported_operator_counterexample:
  "snd (batch example_store example_env
          [GetOp [''users''] ''k1'',
           SearchOp [''users''] (Some [(''score'', JDict [(''$foo'', JInt 1)])]) 10 0 None]
          empty_world)
     = Inl (UnsupportedOperator ''$foo'')
   \<and> executed (fst (batch example_store example_env
          [GetOp [''users''] ''k1'',
           SearchOp [''users''] (Some [(''score'', JDict [(''$foo'', JInt 1)])]) 10 0 None]
          empty_world))
     = [get_statement [''users''] [''k1'']]"
  by code_simp

section \<open>Properties of the embedding pipeline\<close>

text \<open>
  C3 (as amended). The embedding capability is called at most once in each phase of a
  batch, never once per item: when the Searches compile, once in the Search phase with
  the query texts of all Searches that need a vector search, if there are any, and
  then once in the Put phase with all extracted fragments, if there are any; when the
  Searches do not compile, not at all. A batch therefore makes no, one or two calls.
\<close>

theorem embedding_once_per_phase:
  "embed_calls (fst (batch st ev ops w)) =
     embed_calls w
     @ (case prepare_batch_search_queries (embedding_config st) (typed_ops SearchOpT ops) of
          Inl e \<Rightarrow> []
        | Inr compiled \<Rightarrow>
            (if search_texts st (typed_ops SearchOpT ops) \<noteq> []
             then [search_texts st (typed_ops SearchOpT ops)] else [])
            @ (if put_texts st (typed_ops PutOpT ops) \<noteq> []
               then [put_texts st (typed_ops PutOpT ops)] else []))"
  by (rule batch_embed_calls)

theorem embedding_once_per_phase_witness:
  "embed_calls (fst (batch vector_store example_env
      [SearchOp [''users''] None 10 0 (Some ''hello''),
       SearchOp [''users''] None 10 0 (Some ''bye'')] empty_world))
     = [[''hello'', ''bye'']]
   \<and> search_texts vector_store
         (typed_ops SearchOpT [SearchOp [''users''] None 10 0 (Some ''hello''),
                               SearchOp [''users''] None 10 0 (Some ''bye'')])
       = [''hello'', ''bye'']"
proof -
  let ?ops = "[SearchOp [''users''] None 10 0 (Some ''hello''),
               SearchOp [''users''] None 10 0 (Some ''bye'')]"
  have st: "search_texts vector_store (typed_ops SearchOpT ?ops) = [''hello'', ''bye'']"
    by code_simp
  have pt: "put_texts vector_store (typed_ops PutOpT ?ops) = []"
    by code_simp
  have "\<exists>compiled. prepare_batch_search_queries (embedding_config vector_store)
          (typed_ops SearchOpT ?ops) = Inr compiled"
    by (simp add: typed_ops_def prepare_batch_search_queries_def search_query_def
        filter_conditions_def)
  then obtain compiled where
    "prepare_batch_search_queries (embedding_config vector_store)
          (typed_ops SearchOpT ?ops) = Inr compiled" by blast
  with embedding_once_per_phase [of vector_store example_env ?ops empty_world] st pt
  show ?thesis by (simp add: empty_world_def)
qed

theorem embedding_once_per_batch_counterexample:
  "embed_calls (fst (batch vector_store example_env
      [PutOp [''users''] ''k9'' (Some [(''a'', JInt 9)]),
       SearchOp [''users''] None 10 0 (Some ''hello'')] empty_world))
     = [[''hello''], [[CHR ''{'', CHR 0x22, CHR ''a'', CHR 0x22, CHR '':'', CHR '' '',
                      CHR ''9'', CHR ''}'']]]"
  by code_simp

text \<open>
  C4 (as amended). No batch fails with the embedding-config-required error: the only
  error of a batch is the unsupported-operator error. When no embedding config is set,
  no embedding work is pending at all: no Search needs a vector search (a Search that
  carries a query string is compiled as a plain prefix search), the Puts yield no
  fragments, and the embedding capability is not called.
\<close>

theorem embedding_config_never_required:
  "snd (batch st ev ops w) \<noteq> Inl EmbeddingConfigRequired
   \<and> (embedding_config st = None \<longrightarrow>
        \<not> needs_vector_search (embedding_config st) op
      \<and> search_texts st (typed_ops SearchOpT ops) = []
      \<and> put_texts st (typed_ops PutOpT ops) = []
      \<and> embed_calls (fst (batch st ev ops w)) = embed_calls w)"
proof (intro conjI impI)
  show "snd (batch st ev ops w) \<noteq> Inl EmbeddingConfigRequired"
  proof
    assume "snd (batch st ev ops w) = Inl EmbeddingConfigRequired"
    from batch_error [OF this] show False
      by (auto simp: EmbeddingConfigRequired_def UnsupportedOperator_def)
  qed
next
  assume n: "embedding_config st = None"
  then show "\<not> needs_vector_search (embedding_config st) op"
    by (simp add: needs_vector_search_def)
  from n show s: "search_texts st (typed_ops SearchOpT ops) = []"
    by (rule search_texts_no_config)
  from n show p: "put_texts st (typed_ops PutOpT ops) = []"
    by (rule put_texts_no_config)
  from s p show "embed_calls (fst (batch st ev ops w)) = embed_calls w"
    by (simp add: batch_embed_calls split: sum.splits)
qed

theorem embedding_config_never_required_witness:
  "snd (batch example_store example_env
          [SearchOp [''users''] None 10 0 (Some ''hello'')] empty_world)
     \<noteq> Inl EmbeddingConfigRequired
   \<and> \<not> needs_vector_search None (SearchOp [''users''] None 10 0 (Some ''hello''))
   \<and> embed_calls (fst (batch example_store example_env
          [SearchOp [''users''] None 10 0 (Some ''hello'')] empty_world)) = []"
  using embedding_config_never_required [of example_store example_env
      "[SearchOp [''users''] None 10 0 (Some ''hello'')]" empty_world
      "SearchOp [''users''] None 10 0 (Some ''hello'')"]
  by (simp add: example_store_def empty_world_def)

theorem embedding_config_required_counterexample:
  "embedding_config example_store = None
   \<and> snd (batch example_store example_env
            [SearchOp [''users''] None 10 0 (Some ''hello'')] empty_world)
       = Inr [RItems [SearchItem ''k2'' [''users''] (JDict [(''a'', JInt 2)]) 5 6 None]]
   \<and> map snd (executed (fst (batch example_store example_env
            [SearchOp [''users''] None 10 0 (Some ''hello'')] empty_world)))
       = [[PStr ''users%'', PInt 10, PInt 0]]"
  by code_simp

text \<open>
  C7 (as amended). The filter \<open>{"score": {"$gt": 3.2}}\<close> compiles to the text
  comparison \<open>value->>%s > %s\<close> with the parameters \<open>score\<close> and the text \<open>3.2\<close>
  (the operand is passed through \<open>str\<close>). An item therefore matches exactly when the
  text of its score field is greater than the text \<open>3.2\<close> in the order of texts, not
  when its score is the greater number.
\<close>

theorem gt_filter_compares_text:
  "get_filter_condition k ''$gt'' v = Inr (''value->>%s > %s'', [PStr k, PStr (py_str v)])
   \<and> py_str (JFloat ''3.2'') = ''3.2''
   \<and> (ordering_condition_holds field_text (''value->>%s > %s'', [PStr k, PStr (py_str v)])
        \<longleftrightarrow> py_str v < field_text)"
  by (simp add: get_filter_condition_def py_str_def ordering_condition_holds_def)

theorem gt_filter_compares_text_witness:
  "get_filter_condition ''score'' ''$gt'' (JFloat ''3.2'')
     = Inr (''value->>%s > %s'', [PStr ''score'', PStr ''3.2''])
   \<and> ordering_condition_holds ''4.5'' (''value->>%s > %s'', [PStr ''score'', PStr ''3.2''])
   \<and> \<not> ordering_condition_holds ''3.0'' (''value->>%s > %s'', [PStr ''score'', PStr ''3.2''])
   \<and> \<not> ordering_condition_holds ''3.2'' (''value->>%s > %s'', [PStr ''score'', PStr ''3.2''])"
proof -
  have t: "py_str (JFloat ''3.2'') = ''3.2''"
    by (simp add: py_str_def)
  have o: "''3.2'' < ''4.5''" "\<not> ''3.2'' < ''3.0''" "\<not> ''3.2'' < ''3.2''"
    by (simp_all add: less_char_def)
  from gt_filter_compares_text [of "''score''" "JFloat ''3.2''" "''4.5''"]
    gt_filter_compares_text [of "''score''" "JFloat ''3.2''" "''3.0''"]
    gt_filter_compares_text [of "''score''" "JFloat ''3.2''" "''3.2''"]
  show ?thesis
    unfolding t using o by simp
qed

theorem gt_filter_numeric_counterexample:
  "get_filter_condition ''score'' ''$gt'' (JFloat ''3.2'')
     = Inr (''value->>%s > %s'', [PStr ''score'', PStr ''3.2''])
   \<and> json_dumps False (JInt 10) = ''10''
   \<and> \<not> ordering_condition_holds ''10'' (''value->>%s > %s'', [PStr ''score'', PStr ''3.2''])
   \<and> (32::int) < 10 * 10"
proof -
  have "\<not> ''3.2'' < ''10''"
    by (simp add: less_char_def)
  moreover have "json_dumps False (JInt 10) = ''10''"
    by code_simp
  ultimately show ?thesis
    by (simp add: get_filter_condition_def py_str_def ordering_condition_holds_def)
qed

section \<open>Properties of the migration runner\<close>












end
